theory Spec2Isabelle
  imports Main
begin

section \<open>The object initializer engine of lacc (src/parser/initializer.c)\<close>

subsection \<open>Data model\<close>

text \<open>
  The type tree is an external collaborator (typetree.h). A type carries what the
  engine asks of it: its category (\<open>type_of\<close>), its size (\<open>size_of\<close>), the element type
  and length of an array, and the ordered members of a struct or union. Anonymous
  unions are flattened into the member list of the enclosing struct, which is why
  members can share an offset. The size of a struct or union is stored, since it
  depends on alignment rules that are not part of this file.
\<close>

datatype ctype =
    T_VOID | T_BOOL | T_CHAR | T_SHORT | T_INT | T_LONG
  | T_FLOAT | T_DOUBLE | T_LDOUBLE | T_POINTER | T_FUNCTION
  | T_ARRAY ctype nat
  | T_STRUCT nat "member list"
  | T_UNION nat "member list"
and member =
    Member (m_name: string) (m_type: ctype) (m_offset: nat)
           (m_field_width: int) (m_field_offset: int)

datatype linkage = LINK_NONE | LINK_INTERN | LINK_EXTERN

datatype symtype = SYM_DEFINITION | SYM_TENTATIVE | SYM_DECLARATION
  | SYM_TYPEDEF | SYM_LITERAL | SYM_CONSTANT | SYM_LABEL | SYM_TAG

text \<open>
  A symbol is referred to by pointer in the source. Its type is the one thing the
  engine mutates (\<open>set_array_length\<close>), so the type of the symbol being initialized
  lives in the parser state below and not in this record.
\<close>

record symbol =
  sym_name :: string
  symtype :: symtype
  linkage :: linkage

datatype var_kind = DIRECT | DEREF | ADDRESS | IMMEDIATE

text \<open>
  \<open>struct var\<close>. Offsets and sizes are \<open>size_t\<close> in the source and natural numbers
  here. Where an index designator can drive the arithmetic past the word size (the
  index and the element offset of the array walk, and the member offset added to
  it) the result is reduced with \<open>size_t\<close>, defined below; elsewhere every
  subtraction is guarded by a comparison or written with its wrap-around, and the
  sums are of offsets and sizes inside one object. The bit-field position and width
  are signed. An immediate has no symbol in the source (a null pointer); the engine reads
  the symbol of direct and address variables only, so the field is total here and
  immediates carry \<open>null_symbol\<close>.
\<close>

record var =
  kind :: var_kind
  vtype :: ctype
  symbol :: symbol
  imm :: int
  offset :: nat
  field_width :: int
  field_offset :: int
  lvalue :: bool

datatype ir_op = IR_OP_CAST | IR_OP_CALL | IR_OP_OTHER nat

record expression =
  op :: ir_op
  etype :: ctype
  l_var :: var

datatype st_kind = IR_EXPR | IR_PARAM | IR_VA_START | IR_ASSIGN

record statement =
  st :: st_kind
  st_t :: var
  st_expr :: expression

text \<open>
  \<open>struct block\<close>: the code array, the pending expression and the flag saying that
  an expression has been read and not yet assigned. Blocks are compared by address in
  \<open>read_initializer_element\<close>; \<open>block_id\<close> stands for the address.
\<close>

record block =
  block_id :: nat
  code :: "statement list"
  expr :: expression
  has_init_value :: bool

datatype token =
    LBRACE | RBRACE | COMMA | DOT | LBRACKET | RBRACKET | ASSIGN
  | IDENTIFIER string | OTHER nat | END

datatype error =
    AssertFail string
  | Fatal string
  | TokenMismatch
  | SyntaxError
  | DivisionByZero
  | OutOfFuel

text \<open>A fatal error or a failed assertion ends the run: the rest is skipped.\<close>

definition and_then :: "error + 'a \<Rightarrow> ('a \<Rightarrow> error + 'b) \<Rightarrow> error + 'b" where
  "and_then m f = (case m of Inl e \<Rightarrow> Inl e | Inr x \<Rightarrow> f x)"

text \<open>
  Offsets, indices and counts are \<open>size_t\<close> in the source: unsigned arithmetic on 64
  bits, which wraps. \<open>size_t n\<close> is the value such a computation leaves for the
  mathematical result n.
\<close>

definition size_t :: "nat \<Rightarrow> nat" where
  "size_t n = n mod 2 ^ 64"

definition null_symbol :: symbol where
  "null_symbol = \<lparr>sym_name = [], symtype = SYM_CONSTANT, linkage = LINK_NONE\<rparr>"

subsection \<open>External collaborators\<close>

text \<open>
  Modelled from the spec: \<open>size_of\<close> (typetree.h, not under src/). The sizes of the
  basic types are the ones \<open>zero_initialize_bytes\<close> and
  \<open>initialize_trailing_padding\<close> rely on (char 1, short 2, int 4, long 8); an array
  is its length times its element size.
\<close>

fun size_of :: "ctype \<Rightarrow> nat" where
  "size_of T_VOID = 0"
| "size_of T_BOOL = 1"
| "size_of T_CHAR = 1"
| "size_of T_SHORT = 2"
| "size_of T_INT = 4"
| "size_of T_LONG = 8"
| "size_of T_FLOAT = 4"
| "size_of T_DOUBLE = 8"
| "size_of T_LDOUBLE = 16"
| "size_of T_POINTER = 8"
| "size_of T_FUNCTION = 0"
| "size_of (T_ARRAY e n) = n * size_of e"
| "size_of (T_STRUCT sz ms) = sz"
| "size_of (T_UNION sz ms) = sz"

text \<open>
  Modelled from the spec: the predicates and accessors of the type tree (typetree.h,
  not under src/), each as its name says. Types carry no qualifiers here, so
  compatibility ignoring qualifiers is equality.
\<close>

fun is_struct :: "ctype \<Rightarrow> bool" where
  "is_struct (T_STRUCT sz ms) = True"
| "is_struct _ = False"

fun is_union :: "ctype \<Rightarrow> bool" where
  "is_union (T_UNION sz ms) = True"
| "is_union _ = False"

definition is_struct_or_union :: "ctype \<Rightarrow> bool" where
  "is_struct_or_union t = (is_struct t \<or> is_union t)"

fun is_array :: "ctype \<Rightarrow> bool" where
  "is_array (T_ARRAY e n) = True"
| "is_array _ = False"

definition is_char :: "ctype \<Rightarrow> bool" where
  "is_char t = (t = T_CHAR)"

definition is_void :: "ctype \<Rightarrow> bool" where
  "is_void t = (t = T_VOID)"

definition is_function :: "ctype \<Rightarrow> bool" where
  "is_function t = (t = T_FUNCTION)"

definition is_integer :: "ctype \<Rightarrow> bool" where
  "is_integer t = (t \<in> {T_BOOL, T_CHAR, T_SHORT, T_INT, T_LONG})"

definition is_compatible_unqualified :: "ctype \<Rightarrow> ctype \<Rightarrow> bool" where
  "is_compatible_unqualified a b = (a = b)"

fun type_next :: "ctype \<Rightarrow> ctype" where
  "type_next (T_ARRAY e n) = e"
| "type_next t = t"

fun type_array_len :: "ctype \<Rightarrow> nat" where
  "type_array_len (T_ARRAY e n) = n"
| "type_array_len t = 0"

fun set_array_length :: "ctype \<Rightarrow> nat \<Rightarrow> ctype" where
  "set_array_length (T_ARRAY e n) k = T_ARRAY e k"
| "set_array_length t k = t"

fun members :: "ctype \<Rightarrow> member list" where
  "members (T_STRUCT sz ms) = ms"
| "members (T_UNION sz ms) = ms"
| "members _ = []"

definition nmembers :: "ctype \<Rightarrow> nat" where
  "nmembers t = length (members t)"

text \<open>
  Modelled from the spec: \<open>get_member(T, i)\<close> returns the i-th member; an index past
  the last member is a failed assertion of the type tree.
\<close>

definition get_member :: "ctype \<Rightarrow> nat \<Rightarrow> error + member" where
  "get_member t i =
     (if i < nmembers t then Inr (members t ! i) else Inl (AssertFail ''get_member: index''))"

text \<open>
  Modelled from the spec: \<open>find_type_member(T, name, &i)\<close> looks a member up by name
  and reports its index.
\<close>

fun find_member_from :: "member list \<Rightarrow> string \<Rightarrow> nat \<Rightarrow> (member \<times> nat) option" where
  "find_member_from [] name i = None"
| "find_member_from (m # ms) name i =
     (if m_name m = name then Some (m, i) else find_member_from ms name (Suc i))"

definition find_type_member :: "ctype \<Rightarrow> string \<Rightarrow> (member \<times> nat) option" where
  "find_type_member t name = find_member_from (members t) name 0"

text \<open>
  Modelled from the spec: \<open>as_expr\<close> (not under src/) lifts a variable to an
  expression: the identity expression over that variable, of the variable's type; and
  an expression is an identity when it is such a lifted variable.
\<close>

definition as_expr :: "var \<Rightarrow> expression" where
  "as_expr v = \<lparr>op = IR_OP_CAST, etype = vtype v, l_var = v\<rparr>"

definition is_identity :: "expression \<Rightarrow> bool" where
  "is_identity e = (op e = IR_OP_CAST \<and> etype e = vtype (l_var e))"

text \<open>
  Modelled from the spec: \<open>eval_assign\<close> (eval.c, not under src/) appends one
  \<open>IR_ASSIGN\<close> statement of the expression to the target.
\<close>

definition eval_assign :: "statement list \<Rightarrow> var \<Rightarrow> expression \<Rightarrow> statement list" where
  "eval_assign cd target e = cd @ [\<lparr>st = IR_ASSIGN, st_t = target, st_expr = e\<rparr>]"

text \<open>
  The parser state threaded through the engine: the token stream, the current
  block, the number of temporaries the definition holds (\<open>create_var\<close>), and the type
  of the symbol being initialized.
\<close>

record pstate =
  tokens :: "token list"
  blk :: block
  ntemps :: nat
  sym_type :: ctype

text \<open>
  Modelled from the spec: the token stream (parse.h, not under src/): \<open>peek\<close> and
  \<open>peekn\<close> look ahead without consuming, \<open>next\<close> advances, \<open>consume\<close> advances and
  fails on another token. Past the end of the input the tokenizer answers \<open>END\<close>.
\<close>

definition peekn :: "nat \<Rightarrow> pstate \<Rightarrow> token" where
  "peekn k s = (case drop (k - 1) (tokens s) of [] \<Rightarrow> END | t # _ \<Rightarrow> t)"

definition peek :: "pstate \<Rightarrow> token" where
  "peek s = peekn 1 s"

definition next_token :: "pstate \<Rightarrow> pstate" where
  "next_token s = s\<lparr>tokens := drop 1 (tokens s)\<rparr>"

definition consume :: "token \<Rightarrow> pstate \<Rightarrow> error + pstate" where
  "consume t s = (if peek s = t then Inr (next_token s) else Inl TokenMismatch)"

definition consume_identifier :: "pstate \<Rightarrow> error + (string \<times> pstate)" where
  "consume_identifier s =
     (case peek s of IDENTIFIER name \<Rightarrow> Inr (name, next_token s) | _ \<Rightarrow> Inl TokenMismatch)"

text \<open>
  The expression parser is external. What it does to the engine's state is: consume
  tokens, leave an expression in \<open>block->expr\<close>, append the statements the expression
  needs, and possibly continue in another block (\<open>p_block\<close> is then its address and
  \<open>p_code\<close> its code). A parse result says so; the parser itself is a parameter of
  the engine.
\<close>

record parsed =
  p_expr :: expression
  p_code :: "statement list"
  p_block :: "nat option"

record extern =
  assignment_expression :: "token list \<Rightarrow> (parsed \<times> token list) option"
  constant_expression :: "token list \<Rightarrow> (var \<times> token list) option"

definition parse_assignment_expression :: "extern \<Rightarrow> pstate \<Rightarrow> error + pstate" where
  "parse_assignment_expression X s =
     (case assignment_expression X (tokens s) of
        None \<Rightarrow> Inl SyntaxError
      | Some (p, ts) \<Rightarrow>
          Inr (s\<lparr>tokens := ts,
                 blk := (if p_block p = None \<or> p_block p = Some (block_id (blk s))
                         then (blk s)\<lparr>code := code (blk s) @ p_code p, expr := p_expr p\<rparr>
                         else \<lparr>block_id = the (p_block p), code = p_code p, expr = p_expr p,
                               has_init_value = False\<rparr>)\<rparr>))"

text \<open>
  Modelled from the spec: \<open>create_var(def, T)\<close> allocates a temporary of type T, a
  fresh symbol without linkage.
\<close>

definition create_var :: "pstate \<Rightarrow> ctype \<Rightarrow> var \<times> pstate" where
  "create_var s t =
     (\<lparr>kind = DIRECT, vtype = t,
       symbol = \<lparr>sym_name = ''.t'' @ replicate (ntemps s) (CHR ''+''),
                 symtype = SYM_DEFINITION, linkage = LINK_NONE\<rparr>,
       imm = 0, offset = 0, field_width = 0, field_offset = 0, lvalue = True\<rparr>,
      s\<lparr>ntemps := Suc (ntemps s)\<rparr>)"

subsection \<open>Element reader\<close>

definition is_loadtime_constant :: "expression \<Rightarrow> bool" where
  "is_loadtime_constant e =
     (if \<not> is_identity e then False
      else case kind (l_var e) of
        IMMEDIATE \<Rightarrow> True
      | DIRECT \<Rightarrow>
          (if \<not> is_array (etype e) \<and> \<not> is_function (etype e) then False
           else linkage (symbol (l_var e)) \<noteq> LINK_NONE)
      | ADDRESS \<Rightarrow> linkage (symbol (l_var e)) \<noteq> LINK_NONE
      | DEREF \<Rightarrow> False)"

text \<open>
  \<open>read_initializer_element\<close>. The test \<open>array_len(&block->code) - ops > 0\<close> is an
  unsigned subtraction: it holds exactly when the two lengths differ.
\<close>

definition read_initializer_element :: "extern \<Rightarrow> pstate \<Rightarrow> symbol \<Rightarrow> error + pstate" where
  "read_initializer_element X s symb =
     (if has_init_value (blk s) then Inl (AssertFail ''!block->has_init_value'')
      else
        let ops = length (code (blk s)); top = block_id (blk s) in
        and_then (parse_assignment_expression X s) (\<lambda>s1.
          if is_void (etype (expr (blk s1))) then Inl (Fatal ''Cannot initialize with void value.'')
          else if linkage symb \<noteq> LINK_NONE then
            (if block_id (blk s1) \<noteq> top
                \<or> length (code (blk s1)) \<noteq> ops
                \<or> \<not> is_identity (expr (blk s1))
                \<or> \<not> is_loadtime_constant (expr (blk s1))
             then Inl (Fatal ''Initializer must be computable at load time.'')
             else Inr (s1\<lparr>blk := (blk s1)\<lparr>has_init_value := True\<rparr>\<rparr>))
          else if op (expr (blk s1)) = IR_OP_CALL then
            (let (tmp, s2) = create_var s1 (etype (expr (blk s1)));
                 b = blk s2;
                 b = b\<lparr>code := eval_assign (code b) tmp (expr b)\<rparr>;
                 b = b\<lparr>expr := as_expr tmp\<rparr>
             in Inr (s2\<lparr>blk := b\<lparr>has_init_value := True\<rparr>\<rparr>))
          else Inr (s1\<lparr>blk := (blk s1)\<lparr>has_init_value := True\<rparr>\<rparr>)))"

subsection \<open>Designator probes\<close>

datatype current_object_state = CURRENT | DESIGNATOR | MEMBER

text \<open>
  \<open>next_element\<close>: the probe of the struct and union walks. It answers whether an
  element follows and consumes the comma when it says yes.
\<close>

definition next_element :: "current_object_state \<Rightarrow> pstate \<Rightarrow> bool \<times> pstate" where
  "next_element state s =
     (if peek s = COMMA then
        (case peekn 2 s of
           RBRACE \<Rightarrow> (False, s)
         | DOT \<Rightarrow> (if state \<noteq> CURRENT then (False, s) else (True, next_token s))
         | _ \<Rightarrow> (True, next_token s))
      else (False, s))"

text \<open>
  \<open>has_next_array_element\<close>: the probe of the array walk. It consumes nothing; the
  second component is \<open>*is_designator\<close>.
\<close>

definition has_next_array_element :: "current_object_state \<Rightarrow> pstate \<Rightarrow> bool \<times> bool" where
  "has_next_array_element state s =
     (if peek s = COMMA then
        (case peekn 2 s of
           RBRACE \<Rightarrow> (False, False)
         | DOT \<Rightarrow> (False, False)
         | LBRACKET \<Rightarrow> (if state \<noteq> CURRENT then (False, False) else (True, True))
         | _ \<Rightarrow> (True, False))
      else (False, False))"

subsection \<open>Members\<close>

definition access_member :: "var \<Rightarrow> member \<Rightarrow> nat \<Rightarrow> var" where
  "access_member target m filled =
     target\<lparr>vtype := m_type m, field_offset := m_field_offset m,
            field_width := m_field_width m, offset := size_t (filled + m_offset m)\<rparr>"

definition get_named_member :: "ctype \<Rightarrow> string \<Rightarrow> error + (member \<times> nat)" where
  "get_named_member t name =
     (case find_type_member t name of
        None \<Rightarrow> Inl (Fatal ''has no member named'')
      | Some r \<Rightarrow> Inr r)"

text \<open>
  The inner loop of the positional branch of \<open>initialize_struct\<close>: take members from
  index i on until one differs from \<open>prev\<close> in offset or in bit-field offset. It
  answers the member and the index after it.
\<close>

function next_member :: "ctype \<Rightarrow> nat \<Rightarrow> member option \<Rightarrow> error + (member \<times> nat)" where
  "next_member t i prev =
     (case get_member t i of
        Inl e \<Rightarrow> Inl e
      | Inr m \<Rightarrow>
          (if prev = None
              \<or> m_offset (the prev) \<noteq> m_offset m
              \<or> m_field_offset (the prev) \<noteq> m_field_offset m
           then Inr (m, i + 1)
           else next_member t (i + 1) prev))"
  by pat_completeness auto
termination
  by (relation "measure (\<lambda>(t, i, prev). nmembers t - i)")
     (auto simp: get_member_def split: if_splits)

declare next_member.simps [simp del]

subsection \<open>The recursive descent over the object\<close>

text \<open>
  \<open>assign_initializer_element\<close>: the assignment is evaluated on the normal block,
  and its last statement, the assignment itself, is moved to the values buffer.
\<close>

definition assign_initializer_element ::
  "pstate \<Rightarrow> statement list \<Rightarrow> var \<Rightarrow> error + (pstate \<times> statement list)" where
  "assign_initializer_element s vals target =
     (if kind target \<noteq> DIRECT then Inl (AssertFail ''target.kind == DIRECT'')
      else if \<not> has_init_value (blk s) then Inl (AssertFail ''block->has_init_value'')
      else
        let cd = eval_assign (code (blk s)) target (expr (blk s));
            stm = last cd
        in if st stm \<noteq> IR_ASSIGN then Inl (AssertFail ''st.st == IR_ASSIGN'')
           else Inr (s\<lparr>blk := (blk s)\<lparr>code := butlast cd, has_init_value := False\<rparr>\<rparr>,
                     vals @ [stm]))"

text \<open>
  \<open>try_parse_index\<close> answers whether an index designator was read, the index (the
  old one when there was none) and the state. The constant is stored into a
  \<open>size_t\<close>, so a negative one becomes a huge index.
\<close>

definition try_parse_index :: "extern \<Rightarrow> pstate \<Rightarrow> nat \<Rightarrow> error + (bool \<times> nat \<times> pstate)" where
  "try_parse_index X s i =
     (if peek s = LBRACKET then
        (case constant_expression X (tokens (next_token s)) of
           None \<Rightarrow> Inl SyntaxError
         | Some (num, ts) \<Rightarrow>
             if \<not> is_integer (vtype num)
             then Inl (Fatal ''Array designator must have integer value.'')
             else and_then (consume RBRACKET (s\<lparr>tokens := ts\<rparr>))
                    (\<lambda>s2. Inr (True, nat (imm num mod 2 ^ 64), s2)))
      else Inr (False, i, s))"

text \<open>
  The one type the engine mutates is that of the symbol being initialized, and a
  \<open>Type\<close> is a handle into the type table: a handle that was the symbol's type on
  entry reads the symbol's current type later.
\<close>

definition type_handle :: "pstate \<Rightarrow> pstate \<Rightarrow> ctype \<Rightarrow> ctype" where
  "type_handle s0 s t = (if t = sym_type s0 then sym_type s else t)"

text \<open>
  Modelled from the spec: the assignment of a string literal to an array of
  incomplete length (the part of \<open>eval_assign\<close> beyond appending the statement, not
  under src/) completes the type of the symbol to the literal's length, and the target
  it returns has the completed type.
\<close>

definition eval_assign_string ::
  "pstate \<Rightarrow> statement list \<Rightarrow> var \<Rightarrow> expression \<Rightarrow> pstate \<times> statement list \<times> var" where
  "eval_assign_string s vals target e =
     (if size_of (vtype target) = 0 \<and> vtype target = sym_type s
      then (s\<lparr>sym_type := set_array_length (sym_type s) (type_array_len (etype e))\<rparr>,
            eval_assign vals target e,
            target\<lparr>vtype := set_array_length (vtype target) (type_array_len (etype e))\<rparr>)
      else (s, eval_assign vals target e, target))"

text \<open>
  The engine recurses over the type of the object and loops over the tokens:
  \<open>initialize_member\<close> calls the struct, union and array walks, whose loops call
  \<open>initialize_member\<close> again. The recursion is tied by a bound on the depth of calls
  and loop iterations: each function below is written over an \<open>engine\<close>, the four
  recursive entry points with one unit less of the bound, and \<open>engine_at X n\<close>
  builds them. Running out of the bound is the error \<open>OutOfFuel\<close>, which is not a result of
  the source. The bodies of the three \<open>do\<close>/\<open>while\<close> loops are \<open>union_loop\<close>,
  \<open>struct_loop\<close> and \<open>array_loop\<close>; their arguments are the local variables of the
  enclosing function, and \<open>array_loop\<close> also answers the local \<open>c\<close>.
\<close>

record engine =
  rec_member ::
    "pstate \<Rightarrow> statement list \<Rightarrow> var \<Rightarrow> error + (pstate \<times> statement list)"
  rec_union_loop ::
    "pstate \<Rightarrow> statement list \<Rightarrow> var \<Rightarrow> nat \<Rightarrow> ctype \<Rightarrow> current_object_state \<Rightarrow> bool
       \<Rightarrow> error + (pstate \<times> statement list)"
  rec_struct_loop ::
    "pstate \<Rightarrow> statement list \<Rightarrow> var \<Rightarrow> nat \<Rightarrow> ctype \<Rightarrow> nat \<Rightarrow> nat \<Rightarrow> member option
       \<Rightarrow> current_object_state \<Rightarrow> error + (pstate \<times> statement list)"
  rec_array_loop ::
    "pstate \<Rightarrow> statement list \<Rightarrow> var \<Rightarrow> nat \<Rightarrow> nat \<Rightarrow> nat \<Rightarrow> current_object_state
       \<Rightarrow> nat \<Rightarrow> nat \<Rightarrow> error + (pstate \<times> statement list \<times> nat)"

definition union_loop ::
  "extern \<Rightarrow> engine \<Rightarrow> pstate \<Rightarrow> statement list \<Rightarrow> var \<Rightarrow> nat \<Rightarrow> ctype
     \<Rightarrow> current_object_state \<Rightarrow> bool \<Rightarrow> error + (pstate \<times> statement list)" where
  "union_loop X E s init target filled ty state done =
     and_then
       (if peek s = DOT then
          and_then (consume_identifier (next_token s)) (\<lambda>(name, s1).
          and_then (get_named_member ty name) (\<lambda>(m, idx).
            Inr (Some (access_member target m filled,
                       if peek s1 = ASSIGN then next_token s1 else s1))))
        else if \<not> done then
          and_then (get_member ty 0) (\<lambda>m. Inr (Some (access_member target m filled, s)))
        else Inr None)
       (\<lambda>r. case r of
          None \<Rightarrow> Inr (s, init)
        | Some (target1, s2) \<Rightarrow>
            and_then (rec_member E s2 [] target1) (\<lambda>(s3, init3).
              case next_element state s3 of
                (True, s4) \<Rightarrow> rec_union_loop E s4 init3 target1 filled ty state True
              | (False, s4) \<Rightarrow> Inr (s4, init3)))"

definition initialize_union ::
  "extern \<Rightarrow> engine \<Rightarrow> pstate \<Rightarrow> statement list \<Rightarrow> var \<Rightarrow> current_object_state
     \<Rightarrow> error + (pstate \<times> statement list)" where
  "initialize_union X E s vals target state =
     (if \<not> is_union (vtype target) then Inl (AssertFail ''is_union(type)'')
      else if \<not> nmembers (vtype target) > 0 then Inl (AssertFail ''nmembers(type) > 0'')
      else
        and_then (union_loop X E s [] target (offset target) (vtype target) state False)
          (\<lambda>(s1, init). Inr (s1, vals @ init)))"

definition struct_loop ::
  "extern \<Rightarrow> engine \<Rightarrow> pstate \<Rightarrow> statement list \<Rightarrow> var \<Rightarrow> nat \<Rightarrow> ctype \<Rightarrow> nat \<Rightarrow> nat
     \<Rightarrow> member option \<Rightarrow> current_object_state \<Rightarrow> error + (pstate \<times> statement list)" where
  "struct_loop X E s vals target filled ty m i prev state =
     and_then
       (if \<not> has_init_value (blk s) \<and> peek s = DOT then
          and_then (consume_identifier (next_token s)) (\<lambda>(name, s1).
          and_then (get_named_member ty name) (\<lambda>(mem, idx).
            let target1 = access_member target mem filled;
                s2 = (if peek s1 = ASSIGN then next_token s1 else s1)
            in and_then (rec_member E s2 vals target1) (\<lambda>(s3, vals3).
                 Inr (s3, vals3, target1, Some mem, idx + 1, False))))
        else
          and_then (next_member ty i prev) (\<lambda>(mem, i1).
            let target1 = access_member target mem filled
            in and_then (rec_member E s vals target1) (\<lambda>(s3, vals3).
                 Inr (s3, vals3, target1, Some mem, i1, i1 \<ge> m))))
       (\<lambda>(s3, vals3, target1, prev1, i1, brk).
          if brk then Inr (s3, vals3)
          else case next_element state s3 of
                 (True, s4) \<Rightarrow> rec_struct_loop E s4 vals3 target1 filled ty m i1 prev1 state
               | (False, s4) \<Rightarrow> Inr (s4, vals3))"

definition initialize_struct ::
  "extern \<Rightarrow> engine \<Rightarrow> pstate \<Rightarrow> statement list \<Rightarrow> var \<Rightarrow> current_object_state
     \<Rightarrow> error + (pstate \<times> statement list)" where
  "initialize_struct X E s vals target state =
     (if \<not> is_struct (vtype target) then Inl (AssertFail ''is_struct(type)'')
      else if \<not> nmembers (vtype target) > 0 then Inl (AssertFail ''nmembers(type) > 0'')
      else struct_loop X E s vals (target\<lparr>lvalue := True\<rparr>) (offset target) (vtype target)
             (nmembers (vtype target)) 0 None state)"

definition initialize_struct_or_union ::
  "extern \<Rightarrow> engine \<Rightarrow> pstate \<Rightarrow> statement list \<Rightarrow> var \<Rightarrow> current_object_state
     \<Rightarrow> error + (pstate \<times> statement list)" where
  "initialize_struct_or_union X E s vals target state =
     (if \<not> is_struct_or_union (vtype target)
      then Inl (AssertFail ''is_struct_or_union(target.type)'')
      else if \<not> nmembers (vtype target) > 0
      then Inl (AssertFail ''nmembers(target.type) > 0'')
      else
        and_then
          (if \<not> has_init_value (blk s) then
             (if peek s = DOT \<or> peek s = LBRACE \<or> peek s = LBRACKET then Inr s
              else read_initializer_element X s (symbol target))
           else Inr s)
          (\<lambda>s1.
             if has_init_value (blk s1)
                \<and> is_compatible_unqualified (vtype target) (etype (expr (blk s1)))
             then Inr (s1\<lparr>blk := (blk s1)\<lparr>has_init_value := False\<rparr>\<rparr>,
                       eval_assign vals target (expr (blk s1)))
             else if is_union (vtype target) then initialize_union X E s1 vals target state
             else initialize_struct X E s1 vals target state))"

definition array_loop ::
  "extern \<Rightarrow> engine \<Rightarrow> pstate \<Rightarrow> statement list \<Rightarrow> var \<Rightarrow> nat \<Rightarrow> nat \<Rightarrow> nat
     \<Rightarrow> current_object_state \<Rightarrow> nat \<Rightarrow> nat \<Rightarrow> error + (pstate \<times> statement list \<times> nat)" where
  "array_loop X E s vals target initial width count state i c =
     and_then (try_parse_index X s i) (\<lambda>(found, i1, s1).
       let s2 = (if found \<and> peek s1 = ASSIGN then next_token s1 else s1);
           target1 = target\<lparr>offset := size_t (initial + i1 * width)\<rparr>
       in and_then (rec_member E s2 vals target1) (\<lambda>(s3, vals3).
            let i2 = size_t (i1 + 1);
                c2 = (if i2 > c then i2 else c)
            in case has_next_array_element state s3 of
                 (True, is_designator) \<Rightarrow>
                   if \<not> is_designator \<and> count \<noteq> 0 \<and> c2 \<ge> count then Inr (s3, vals3, c2)
                   else and_then (consume COMMA s3) (\<lambda>s4.
                          rec_array_loop E s4 vals3 target1 initial width count state i2 c2)
               | (False, is_designator) \<Rightarrow> Inr (s3, vals3, c2)))"

definition initialize_array ::
  "extern \<Rightarrow> engine \<Rightarrow> pstate \<Rightarrow> statement list \<Rightarrow> var \<Rightarrow> current_object_state
     \<Rightarrow> error + (pstate \<times> statement list)" where
  "initialize_array X E s vals target state =
     (if \<not> is_array (vtype target) then Inl (AssertFail ''is_array(target.type)'')
      else if kind target \<noteq> DIRECT then Inl (AssertFail ''target.kind == DIRECT'')
      else
        let count = type_array_len (vtype target);
            ty = vtype target;
            elem = type_next ty;
            width = size_of elem;
            initial = offset target
        in
        and_then
          (if \<not> has_init_value (blk s) then
             (if peek s = DOT \<or> peek s = LBRACE \<or> peek s = LBRACKET then Inr s
              else read_initializer_element X s (symbol target))
           else Inr s)
          (\<lambda>s1.
             and_then
               (if has_init_value (blk s1)
                   \<and> is_char elem
                   \<and> is_identity (expr (blk s1))
                   \<and> is_array (etype (expr (blk s1)))
                   \<and> kind (l_var (expr (blk s1))) = DIRECT
                   \<and> symtype (symbol (l_var (expr (blk s1)))) = SYM_LITERAL
                then
                  (let (s2, vals2, target2) = eval_assign_string s1 vals target (expr (blk s1))
                   in Inr (s2\<lparr>blk := (blk s2)\<lparr>has_init_value := False\<rparr>\<rparr>, vals2, 0))
                else array_loop X E s1 vals (target\<lparr>vtype := elem\<rparr>) initial width count
                       state 0 0)
               (\<lambda>(s3, vals3, c).
                  if size_of (type_handle s s3 ty) = 0 then
                    (if \<not> is_array (sym_type s3)
                     then Inl (AssertFail ''is_array(target.symbol->type)'')
                     else if size_of (sym_type s3) \<noteq> 0
                     then Inl (AssertFail ''!size_of(target.symbol->type)'')
                     else Inr (s3\<lparr>sym_type := set_array_length (sym_type s3) c\<rparr>, vals3))
                  else Inr (s3, vals3))))"

definition initialize_member ::
  "extern \<Rightarrow> engine \<Rightarrow> pstate \<Rightarrow> statement list \<Rightarrow> var \<Rightarrow> error + (pstate \<times> statement list)" where
  "initialize_member X E s vals target =
     (if kind target \<noteq> DIRECT then Inl (AssertFail ''target.kind == DIRECT'')
      else if is_struct_or_union (vtype target) then
        (if \<not> has_init_value (blk s) \<and> peek s = LBRACE then
           and_then (initialize_struct_or_union X E (next_token s) vals target CURRENT)
             (\<lambda>(s1, vals1).
                and_then (consume RBRACE (if peek s1 = COMMA then next_token s1 else s1))
                  (\<lambda>s2. Inr (s2, vals1)))
         else initialize_struct_or_union X E s vals target DESIGNATOR)
      else if is_array (vtype target) then
        (if size_of (vtype target) = 0
         then Inl (Fatal ''Invalid initialization of flexible array member.'')
         else if \<not> has_init_value (blk s) \<and> peek s = LBRACE then
           and_then (initialize_array X E (next_token s) vals target CURRENT)
             (\<lambda>(s1, vals1).
                and_then (consume RBRACE (if peek s1 = COMMA then next_token s1 else s1))
                  (\<lambda>s2. Inr (s2, vals1)))
         else initialize_array X E s vals target DESIGNATOR)
      else
        and_then
          (if \<not> has_init_value (blk s) then
             (if peek s = LBRACE then
                and_then (read_initializer_element X (next_token s) (symbol target))
                  (consume RBRACE)
              else read_initializer_element X s (symbol target))
           else Inr s)
          (\<lambda>s1. assign_initializer_element s1 vals target))"

primrec engine_at :: "extern \<Rightarrow> nat \<Rightarrow> engine" where
  "engine_at X 0 =
     \<lparr>rec_member = (\<lambda>s vals target. Inl OutOfFuel),
      rec_union_loop = (\<lambda>s init target filled ty state done. Inl OutOfFuel),
      rec_struct_loop = (\<lambda>s vals target filled ty m i prev state. Inl OutOfFuel),
      rec_array_loop = (\<lambda>s vals target initial width count state i c. Inl OutOfFuel)\<rparr>"
| "engine_at X (Suc n) =
     (let E = engine_at X n
      in \<lparr>rec_member = initialize_member X E,
          rec_union_loop = union_loop X E,
          rec_struct_loop = struct_loop X E,
          rec_array_loop = array_loop X E\<rparr>)"

primrec initialize_object ::
  "nat \<Rightarrow> extern \<Rightarrow> pstate \<Rightarrow> statement list \<Rightarrow> var \<Rightarrow> error + (pstate \<times> statement list)" where
  "initialize_object 0 X s vals target = Inl OutOfFuel"
| "initialize_object (Suc n) X s vals target =
     (if kind target \<noteq> DIRECT then Inl (AssertFail ''target.kind == DIRECT'')
      else if has_init_value (blk s) then Inl (AssertFail ''!block->has_init_value'')
      else if peek s = LBRACE then
        and_then
          (if is_struct_or_union (vtype target)
           then initialize_struct_or_union X (engine_at X n) (next_token s) vals target CURRENT
           else if is_array (vtype target)
           then initialize_array X (engine_at X n) (next_token s) vals target CURRENT
           else initialize_object n X (next_token s) vals target)
          (\<lambda>(s1, vals1).
             and_then (consume RBRACE (if peek s1 = COMMA then next_token s1 else s1))
               (\<lambda>s2. Inr (s2, vals1)))
      else if is_array (vtype target) then initialize_array X (engine_at X n) s vals target MEMBER
      else
        and_then (read_initializer_element X s (symbol target))
          (\<lambda>s1. assign_initializer_element s1 vals target))"

subsection \<open>Zero-fill\<close>

definition var__immediate_zero :: var where
  "var__immediate_zero =
     \<lparr>kind = IMMEDIATE, vtype = T_INT, symbol = null_symbol, imm = 0, offset = 0,
      field_width = 0, field_offset = 0, lvalue = False\<rparr>"

text \<open>
  \<open>zero_initialize\<close>: a struct or union is reinterpreted as an array of long or of
  char and falls through to the array case, whose loop \<open>zero_elements\<close> runs over
  \<open>size / size_of(element)\<close> elements (a division by zero when the element has no
  size). The buffers of the pool never carry a pending expression, so the assertion
  on \<open>values->has_init_value\<close> has no branch here.
\<close>

function zero_initialize :: "statement list \<Rightarrow> var \<Rightarrow> error + statement list"
  and zero_elements :: "statement list \<Rightarrow> var \<Rightarrow> nat \<Rightarrow> nat \<Rightarrow> nat \<Rightarrow> error + statement list"
where
  "zero_initialize vals target =
     (if kind target \<noteq> DIRECT then Inl (AssertFail ''target.kind == DIRECT'')
      else case vtype target of
        T_STRUCT sz ms \<Rightarrow>
          (if sz = 0 then Inl (AssertFail ''size'')
           else if sz mod 8 \<noteq> 0
             then zero_elements vals (target\<lparr>vtype := T_CHAR\<rparr>) sz (offset target) 0
             else zero_elements vals (target\<lparr>vtype := T_LONG\<rparr>) sz (offset target) 0)
      | T_UNION sz ms \<Rightarrow>
          (if sz = 0 then Inl (AssertFail ''size'')
           else if sz mod 8 \<noteq> 0
             then zero_elements vals (target\<lparr>vtype := T_CHAR\<rparr>) sz (offset target) 0
             else zero_elements vals (target\<lparr>vtype := T_LONG\<rparr>) sz (offset target) 0)
      | T_ARRAY e n \<Rightarrow>
          zero_elements vals (target\<lparr>vtype := e\<rparr>) (size_of (vtype target)) (offset target) 0
      | T_VOID \<Rightarrow> Inl (Fatal ''Cannot zero-initialize object of type'')
      | T_FUNCTION \<Rightarrow> Inl (Fatal ''Cannot zero-initialize object of type'')
      | _ \<Rightarrow> Inr (eval_assign vals target (as_expr (var__immediate_zero\<lparr>vtype := vtype target\<rparr>))))"
| "zero_elements vals target nbytes base i =
     (if size_of (vtype target) = 0 then Inl DivisionByZero
      else if i < nbytes div size_of (vtype target) then
        (case zero_initialize vals (target\<lparr>offset := base + i * size_of (vtype target)\<rparr>) of
           Inl e \<Rightarrow> Inl e
         | Inr vals1 \<Rightarrow>
             zero_elements vals1 (target\<lparr>offset := base + i * size_of (vtype target)\<rparr>)
               nbytes base (i + 1))
      else Inr vals)"
  by pat_completeness auto
termination
  by (relation "inv_image (less_than <*lex*> less_than)
        (\<lambda>x. case x of
           Inl (vals, target) \<Rightarrow> (size (vtype target), 0)
         | Inr (vals, target, sz, base, i) \<Rightarrow>
             (size (vtype target), Suc (sz div size_of (vtype target) - i)))")
     auto

declare zero_initialize.simps [simp del] zero_elements.simps [simp del]

text \<open>
  \<open>zero_initialize_bytes\<close>: the loop \<open>while (bytes)\<close>, with the switch on
  \<open>bytes % 8\<close> written out.
\<close>

function zero_bytes_loop :: "statement list \<Rightarrow> var \<Rightarrow> nat \<Rightarrow> error + statement list" where
  "zero_bytes_loop vals target bytes =
     (if bytes = 0 then Inr vals
      else
        let size0 = (if bytes mod 8 = 0 then 8 else bytes mod 8) in
        if \<not> size0 \<le> bytes then Inl (AssertFail ''size <= bytes'')
        else
          let (sz, ty) =
                (if size0 = 1 then (1, T_CHAR)
                 else if size0 = 2 then (2, T_SHORT)
                 else if size0 = 4 then (4, T_INT)
                 else if size0 = 8 then (8, T_LONG)
                 else (1, T_CHAR));
              target = target\<lparr>vtype := ty\<rparr>
          in case zero_initialize vals target of
               Inl e \<Rightarrow> Inl e
             | Inr vals1 \<Rightarrow>
                 zero_bytes_loop vals1 (target\<lparr>offset := offset target + size_of (vtype target)\<rparr>)
                   (bytes - sz))"
  by pat_completeness auto
termination
  by (relation "measure (\<lambda>(vals, target, bytes). bytes)") (auto split: if_splits)

declare zero_bytes_loop.simps [simp del]

definition zero_initialize_bytes :: "statement list \<Rightarrow> var \<Rightarrow> nat \<Rightarrow> error + statement list" where
  "zero_initialize_bytes vals target bytes =
     zero_bytes_loop vals (target\<lparr>field_offset := 0, field_width := 0\<rparr>) bytes"

subsection \<open>Post-processing\<close>

text \<open>
  \<open>initialize_padding\<close>. After the rest of a bit-field unit is zeroed the target moves
  past the unit, and \<open>field.offset - target.offset\<close> is then an unsigned subtraction
  that no comparison guards: it wraps when the unit reaches beyond the field.
\<close>

definition initialize_padding :: "statement list \<Rightarrow> var \<Rightarrow> var \<Rightarrow> error + statement list" where
  "initialize_padding block target field =
     (if offset target < offset field then
        and_then
          (if field_offset target \<noteq> 0 then
             (let bits = int (size_of (vtype target)) * 8;
                  target = target\<lparr>field_width := bits - field_offset target\<rparr>
              in and_then (zero_initialize block target) (\<lambda>block1.
                   Inr (block1,
                        target\<lparr>offset := offset target + size_of (vtype target),
                               field_offset := 0, field_width := 0\<rparr>)))
           else Inr (block, target))
          (\<lambda>(block1, target1).
             let padding = (offset field + 2 ^ 64 - offset target1) mod 2 ^ 64
             in zero_initialize_bytes block1 target1 padding)
      else if field_offset target < field_offset field then
        zero_initialize block (target\<lparr>field_width := field_offset field - field_offset target\<rparr>)
      else Inr block)"

definition initialize_trailing_padding ::
  "statement list \<Rightarrow> var \<Rightarrow> nat \<Rightarrow> nat \<Rightarrow> error + statement list" where
  "initialize_trailing_padding block target total_size bitfield_size =
     (if \<not> total_size \<ge> offset target then Inl (AssertFail ''size >= target.offset'')
      else
        and_then
          (if field_offset target \<noteq> 0 then
             and_then
               (if bitfield_size = 1 then
                  Inr (target\<lparr>vtype := T_CHAR, field_width := 8 - field_offset target\<rparr>)
                else if bitfield_size = 2 then
                  Inr (target\<lparr>vtype := T_SHORT, field_width := 16 - field_offset target\<rparr>)
                else if bitfield_size = 4 then
                  Inr (target\<lparr>vtype := T_INT, field_width := 32 - field_offset target\<rparr>)
                else if bitfield_size \<noteq> 8 then Inl (AssertFail ''bitfield_size == 8'')
                else Inr (target\<lparr>vtype := T_LONG, field_width := 64 - field_offset target\<rparr>))
               (\<lambda>target1.
                  if \<not> field_width target1 > 0 then Inl (AssertFail ''target.field_width > 0'')
                  else and_then (zero_initialize block target1) (\<lambda>block1.
                         Inr (block1,
                              target1\<lparr>offset := offset target1 + size_of (vtype target1)\<rparr>)))
           else Inr (block, target))
          (\<lambda>(block1, target1).
             if \<not> total_size \<ge> offset target1 then Inl (AssertFail ''size >= target.offset'')
             else if total_size > offset target1
             then zero_initialize_bytes block1 target1 (total_size - offset target1)
             else Inr block1))"

text \<open>
  \<open>validate_initializer_block\<close> (compiled unless NDEBUG is defined): the walk over
  the finished block, starting from the all-zero variable.
\<close>

definition zero_var :: var where
  "zero_var =
     \<lparr>kind = DIRECT, vtype = T_VOID, symbol = null_symbol, imm = 0, offset = 0,
      field_width = 0, field_offset = 0, lvalue = False\<rparr>"

fun validate_loop :: "var \<Rightarrow> statement list \<Rightarrow> error + unit" where
  "validate_loop target [] = Inr ()"
| "validate_loop target (stm # rest) =
     (if st stm \<noteq> IR_ASSIGN then Inl (AssertFail ''st.st == IR_ASSIGN'')
      else if \<not> offset target \<le> offset (st_t stm)
      then Inl (AssertFail ''target.offset <= st.t.offset'')
      else
        let field = st_t stm in
        if offset target < offset field then
          (if offset field - offset target \<noteq> size_of (vtype target)
           then Inl (AssertFail ''field.offset - target.offset == size_of(target.type)'')
           else validate_loop field rest)
        else
          (if offset target \<noteq> offset field
           then Inl (AssertFail ''target.offset == field.offset'')
           else if field_offset target + field_width target \<noteq> field_offset field
           then Inl (AssertFail ''target.field_offset + target.field_width == field.field_offset'')
           else validate_loop field rest))"

definition validate_initializer_block :: "statement list \<Rightarrow> error + unit" where
  "validate_initializer_block block = validate_loop zero_var block"

text \<open>
  \<open>sort_and_trim\<close>. \<open>sift\<close> is the inner \<open>while\<close> loop: it moves the element at
  \<open>j + 1\<close> down while the element below has a greater offset, and answers the array
  and the final \<open>j\<close> (which never goes below 0: the loop breaks there).
  \<open>sort_loop\<close> is the outer \<open>for\<close> loop; all its indices are within the array.
\<close>

definition swap :: "statement list \<Rightarrow> nat \<Rightarrow> statement list" where
  "swap cd j = cd[j := cd ! (j + 1), j + 1 := cd ! j]"

fun sift :: "statement list \<Rightarrow> nat \<Rightarrow> statement list \<times> nat" where
  "sift cd 0 =
     (if offset (st_t (cd ! 0)) > offset (st_t (cd ! 1)) then (swap cd 0, 0) else (cd, 0))"
| "sift cd (Suc j) =
     (if offset (st_t (cd ! Suc j)) > offset (st_t (cd ! (Suc j + 1)))
      then sift (swap cd (Suc j)) j
      else (cd, Suc j))"

definition array_erase :: "statement list \<Rightarrow> nat \<Rightarrow> statement list" where
  "array_erase cd j = take j cd @ drop (Suc j) cd"

function sort_loop :: "statement list \<Rightarrow> nat \<Rightarrow> error + statement list" where
  "sort_loop cd i =
     (if i < length cd then
        (case sift cd (i - 1) of (cd1, j) \<Rightarrow>
           if offset (st_t (cd1 ! j)) = offset (st_t (cd1 ! (j + 1)))
              \<and> field_offset (st_t (cd1 ! j)) = field_offset (st_t (cd1 ! (j + 1)))
           then
             (if field_width (st_t (cd1 ! j)) \<noteq> field_width (st_t (cd1 ! (j + 1)))
              then Inl (AssertFail ''code[j].t.field_width == code[j + 1].t.field_width'')
              else sort_loop (array_erase cd1 j) (i - 1 + 1))
           else sort_loop cd1 (i + 1))
      else Inr cd)"
  by pat_completeness auto
termination
proof (relation "measure (\<lambda>(cd, i). length cd - i)")
  have sift_shape: "length (fst (sift cd j)) = length cd \<and> snd (sift cd j) \<le> j"
    for cd :: "statement list" and j
  proof (induction j arbitrary: cd)
    case 0
    show ?case by (simp add: swap_def)
  next
    case (Suc j)
    show ?case
      using Suc.IH [of "swap cd (Suc j)"] by (auto simp: swap_def)
  qed
  show "wf (measure (\<lambda>(cd, i). length cd - i))"
    by simp
  show "((array_erase cd1 j, i - 1 + 1), cd, i) \<in> measure (\<lambda>(cd, i). length cd - i)"
    if "i < length cd" and "(cd1, j) = sift cd (i - 1)"
    for cd i cd1 j and x :: "statement list \<times> nat"
  proof -
    have "length cd1 = length cd" "j \<le> i - 1"
      using sift_shape [of cd "i - 1"] that(2) [symmetric] by simp_all
    then show ?thesis
      using that(1) by (simp add: array_erase_def)
  qed
  show "((cd1, i + 1), cd, i) \<in> measure (\<lambda>(cd, i). length cd - i)"
    if "i < length cd" and "(cd1, j) = sift cd (i - 1)"
    for cd i cd1 j and x :: "statement list \<times> nat"
  proof -
    have "length cd1 = length cd"
      using sift_shape [of cd "i - 1"] that(2) [symmetric] by simp
    then show ?thesis
      using that(1) by simp
  qed
qed

declare sort_loop.simps [simp del]

definition sort_and_trim :: "statement list \<Rightarrow> error + statement list" where
  "sort_and_trim vals = sort_loop vals 1"

text \<open>
  The pad-fill walk of \<open>postprocess_object_initialization\<close>: \<open>first\<close> says that
  \<open>i == 0\<close>; the walk answers the block, the cursor and \<open>bitfield_size\<close>.
\<close>

fun postprocess_loop ::
  "statement list \<Rightarrow> var \<Rightarrow> nat \<Rightarrow> bool \<Rightarrow> statement list
     \<Rightarrow> error + (statement list \<times> var \<times> nat)" where
  "postprocess_loop block target bitfield_size first [] = Inr (block, target, bitfield_size)"
| "postprocess_loop block target bitfield_size first (stm # rest) =
     (let field = st_t stm;
          target = (if first then target\<lparr>vtype := vtype field\<rparr> else target)
      in
      if st stm \<noteq> IR_ASSIGN then Inl (AssertFail ''st.st == IR_ASSIGN'')
      else if op (st_expr stm) = IR_OP_CALL then Inl (AssertFail ''st.expr.op != IR_OP_CALL'')
      else if \<not> offset target \<le> offset field
      then Inl (AssertFail ''target.offset <= field.offset'')
      else
        and_then (initialize_padding block target field) (\<lambda>block1.
          let block2 = block1 @ [stm];
              target = target\<lparr>vtype := vtype field, offset := offset field\<rparr>
          in
          if field_width field \<noteq> 0 then
            (let bitfield_size =
                   (if size_of (vtype field) > bitfield_size then size_of (vtype field)
                    else bitfield_size);
                 target = target\<lparr>field_offset := field_offset field + field_width field,
                                 field_width := 0\<rparr>;
                 target =
                   (if field_offset target = int (bitfield_size * 8)
                    then target\<lparr>field_offset := 0, offset := offset target + bitfield_size\<rparr>
                    else target)
             in postprocess_loop block2 target bitfield_size False rest)
          else
            postprocess_loop block2
              (target\<lparr>field_offset := 0, field_width := 0,
                      offset := offset target + size_of (vtype field)\<rparr>)
              0 False rest))"

definition postprocess_object_initialization ::
  "statement list \<Rightarrow> var \<Rightarrow> error + statement list" where
  "postprocess_object_initialization vals target =
     (if offset target \<noteq> 0 then Inl (AssertFail ''target.offset == 0'')
      else
        and_then (sort_and_trim vals) (\<lambda>vals1.
        and_then (postprocess_loop [] target 0 True vals1) (\<lambda>(block, target1, bitfield_size).
        and_then (initialize_trailing_padding block target1 (size_of (vtype target)) bitfield_size)
          (\<lambda>block1.
        and_then (validate_initializer_block block1) (\<lambda>u. Inr block1)))))"

subsection \<open>Top-level driver\<close>

text \<open>
  Modelled from the spec: \<open>var_direct(sym)\<close> builds the direct reference to the
  symbol, at offset 0 and of the symbol's type.
\<close>

definition var_direct :: "pstate \<Rightarrow> symbol \<Rightarrow> var" where
  "var_direct s symb =
     \<lparr>kind = DIRECT, vtype = sym_type s, symbol = symb, imm = 0, offset = 0,
      field_width = 0, field_offset = 0, lvalue = True\<rparr>"

text \<open>
  \<open>initializer\<close>. The type of the target is a handle to the type of the symbol, so
  the post-processor sees the length that \<open>initialize_array\<close> has set.
\<close>

definition initializer :: "nat \<Rightarrow> extern \<Rightarrow> pstate \<Rightarrow> symbol \<Rightarrow> error + pstate" where
  "initializer n X s symb =
     (let target = var_direct s symb in
      and_then
        (if peek s = LBRACE \<or> is_array (sym_type s) then
           and_then (initialize_object n X s [] target) (\<lambda>(s1, vals).
           and_then
             (postprocess_object_initialization vals
                (target\<lparr>vtype := type_handle s s1 (vtype target)\<rparr>))
             (\<lambda>vals1. Inr (s1\<lparr>blk := (blk s1)\<lparr>code := code (blk s1) @ vals1\<rparr>\<rparr>)))
         else
           and_then (read_initializer_element X s (symbol target)) (\<lambda>s1.
             Inr (s1\<lparr>blk := (blk s1)\<lparr>code := eval_assign (code (blk s1)) target (expr (blk s1)),
                                      has_init_value := False\<rparr>\<rparr>)))
        (\<lambda>s2. if has_init_value (blk s2) then Inl (AssertFail ''!block->has_init_value'')
              else Inr s2))"

subsection \<open>Concrete inputs\<close>

text \<open>
  A small expression parser for the examples: a token \<open>OTHER k\<close> is the integer
  constant k, an identifier is a call of the function of that name (returning int),
  and a literal-like token \<open>OTHER k\<close> is also what \<open>constant_expression\<close> reads.
\<close>

definition imm_int :: "int \<Rightarrow> var" where
  "imm_int k = var__immediate_zero\<lparr>imm := k\<rparr>"

definition call_expr :: "string \<Rightarrow> expression" where
  "call_expr name =
     \<lparr>op = IR_OP_CALL, etype = T_INT,
      l_var = \<lparr>kind = DIRECT, vtype = T_FUNCTION,
               symbol = \<lparr>sym_name = name, symtype = SYM_DECLARATION, linkage = LINK_EXTERN\<rparr>,
               imm = 0, offset = 0, field_width = 0, field_offset = 0, lvalue = False\<rparr>\<rparr>"

fun simple_assignment_expression :: "token list \<Rightarrow> (parsed \<times> token list) option" where
  "simple_assignment_expression (OTHER k # ts) =
     Some (\<lparr>p_expr = as_expr (imm_int (int k)), p_code = [], p_block = None\<rparr>, ts)"
| "simple_assignment_expression (IDENTIFIER name # ts) =
     Some (\<lparr>p_expr = call_expr name, p_code = [], p_block = None\<rparr>, ts)"
| "simple_assignment_expression ts = None"

fun simple_constant_expression :: "token list \<Rightarrow> (var \<times> token list) option" where
  "simple_constant_expression (OTHER k # ts) = Some (imm_int (int k), ts)"
| "simple_constant_expression ts = None"

definition X0 :: extern where
  "X0 = \<lparr>assignment_expression = simple_assignment_expression,
         constant_expression = simple_constant_expression\<rparr>"

definition sym_x :: symbol where
  "sym_x = \<lparr>sym_name = ''x'', symtype = SYM_DEFINITION, linkage = LINK_NONE\<rparr>"

definition sym_g :: symbol where
  "sym_g = \<lparr>sym_name = ''g'', symtype = SYM_DEFINITION, linkage = LINK_EXTERN\<rparr>"

definition empty_block :: block where
  "empty_block = \<lparr>block_id = 0, code = [], expr = as_expr var__immediate_zero,
                  has_init_value = False\<rparr>"

definition start :: "ctype \<Rightarrow> token list \<Rightarrow> pstate" where
  "start t ts = \<lparr>tokens = ts, blk = empty_block, ntemps = 0, sym_type = t\<rparr>"

definition direct_target :: "ctype \<Rightarrow> var" where
  "direct_target t = var_direct (start t []) sym_x"

text \<open>
  A parser result for an expression such as \<open>(f(), 5)\<close>: the constant 5 is left as the
  expression, and the call has been emitted as a statement.
\<close>

definition comma_call_parser :: extern where
  "comma_call_parser =
     \<lparr>assignment_expression =
        (\<lambda>ts. Some (\<lparr>p_expr = as_expr (imm_int 5),
                      p_code = [\<lparr>st = IR_EXPR, st_t = var__immediate_zero,
                                st_expr = call_expr ''f''\<rparr>],
                      p_block = None\<rparr>, drop 1 ts)),
      constant_expression = simple_constant_expression\<rparr>"

text \<open>
  Example objects: \<open>struct { int a:3, b:5; }\<close>, and \<open>struct { int x; int a:3, b:5; }\<close>
  with the assignment of the constant k to a member.
\<close>

definition struct_ab :: ctype where
  "struct_ab = T_STRUCT 4 [Member ''a'' T_INT 0 3 0, Member ''b'' T_INT 0 5 3]"

definition struct_xab :: ctype where
  "struct_xab =
     T_STRUCT 8 [Member ''x'' T_INT 0 0 0, Member ''a'' T_INT 4 3 0, Member ''b'' T_INT 4 5 3]"

definition assign_member :: "ctype \<Rightarrow> nat \<Rightarrow> int \<Rightarrow> statement" where
  "assign_member t i k =
     \<lparr>st = IR_ASSIGN,
      st_t = access_member (direct_target t) (members t ! i) 0,
      st_expr = as_expr (imm_int k)\<rparr>"

text \<open>
  \<open>struct { union { struct { int p, q; }; int r; }; int d; }\<close>: the members of the
  anonymous union and of the anonymous struct inside it are members of the enclosing
  struct, so \<open>r\<close> shares offset 0 with \<open>p\<close> and is not next to it.
\<close>

definition struct_pqrd :: ctype where
  "struct_pqrd =
     T_STRUCT 12 [Member ''p'' T_INT 0 0 0, Member ''q'' T_INT 4 0 0,
                  Member ''r'' T_INT 0 0 0, Member ''d'' T_INT 8 0 0]"

text \<open>
  \<open>struct S { int d; union { int a; char b; }; }\<close>, whose last members share
  offset 4, and \<open>struct { struct S s; int z; }\<close>.
\<close>

definition struct_dab :: ctype where
  "struct_dab =
     T_STRUCT 8 [Member ''d'' T_INT 0 0 0, Member ''a'' T_INT 4 0 0, Member ''b'' T_CHAR 4 0 0]"

definition struct_sz :: ctype where
  "struct_sz = T_STRUCT 12 [Member ''s'' struct_dab 0 0 0, Member ''z'' T_INT 8 0 0]"

text \<open>Example declarations: \<open>int a[3] = {1, 2, 3}\<close> and \<open>int a[2] = {f(), 3}\<close>.\<close>

definition tokens_123 :: "token list" where
  "tokens_123 = [LBRACE, OTHER 1, COMMA, OTHER 2, COMMA, OTHER 3, RBRACE]"

definition tokens_f3 :: "token list" where
  "tokens_f3 = [LBRACE, IDENTIFIER ''f'', COMMA, OTHER 3, RBRACE]"

text \<open>
  \<open>union { struct { int x, y; } p; int q; } u = {{1, 2}, .q = 3}\<close>, after the opening
  brace of the union.
\<close>

definition struct_xy :: ctype where
  "struct_xy = T_STRUCT 8 [Member ''x'' T_INT 0 0 0, Member ''y'' T_INT 4 0 0]"

definition union_pq :: ctype where
  "union_pq = T_UNION 8 [Member ''p'' struct_xy 0 0 0, Member ''q'' T_INT 0 0 0]"

definition tokens_pq :: "token list" where
  "tokens_pq = [LBRACE, OTHER 1, COMMA, OTHER 2, RBRACE, COMMA,
                DOT, IDENTIFIER ''q'', ASSIGN, OTHER 3, RBRACE]"

text \<open>
  \<open>int a[] = {1, 2, 3}\<close> after the opening brace, and a parser that reads the string
  literal \<open>"Hi"\<close> (an array of 3 char) whatever the token, for \<open>char s[] = "Hi"\<close>.
\<close>

definition tokens_123_tail :: "token list" where
  "tokens_123_tail = [OTHER 1, COMMA, OTHER 2, COMMA, OTHER 3, RBRACE]"

definition literal_hi :: expression where
  "literal_hi =
     as_expr \<lparr>kind = DIRECT, vtype = T_ARRAY T_CHAR 3,
              symbol = \<lparr>sym_name = ''.LC0'', symtype = SYM_LITERAL, linkage = LINK_INTERN\<rparr>,
              imm = 0, offset = 0, field_width = 0, field_offset = 0, lvalue = False\<rparr>"

definition literal_parser :: extern where
  "literal_parser =
     \<lparr>assignment_expression =
        (\<lambda>ts. Some (\<lparr>p_expr = literal_hi, p_code = [], p_block = None\<rparr>, drop 1 ts)),
      constant_expression = simple_constant_expression\<rparr>"

text \<open>
  \<open>int a[] = { [-1] = 1 }\<close> after the opening brace: the parser of constant
  expressions reads the token \<open>OTHER k\<close> as the constant \<open>-k\<close>.
\<close>

definition negative_index_parser :: extern where
  "negative_index_parser =
     \<lparr>assignment_expression = simple_assignment_expression,
      constant_expression =
        (\<lambda>ts. case ts of
                OTHER k # rest \<Rightarrow> Some (imm_int (- int k), rest)
              | _ \<Rightarrow> None)\<rparr>"

definition tokens_minus_one :: "token list" where
  "tokens_minus_one = [LBRACKET, OTHER 1, RBRACKET, ASSIGN, OTHER 1, RBRACE]"

subsection \<open>Notions used to state the properties\<close>

definition store_size :: "statement \<Rightarrow> nat" where
  "store_size s = size_of (vtype (st_t s))"

definition zero_store :: "var \<Rightarrow> statement" where
  "zero_store target =
     \<lparr>st = IR_ASSIGN, st_t = target,
      st_expr = as_expr (var__immediate_zero\<lparr>vtype := vtype target\<rparr>)\<rparr>"

text \<open>
  The size rule as the specification words it: the largest power of two, at most 8,
  that fits in the bytes remaining.
\<close>

definition largest_fit :: "nat \<Rightarrow> nat" where
  "largest_fit r = (if 8 \<le> r then 8 else if 4 \<le> r then 4 else if 2 \<le> r then 2 else 1)"

text \<open>
  The size rule of the source: 8 when the remaining count is a multiple of 8, the
  remainder modulo 8 when that is 1, 2 or 4, and 1 otherwise.
\<close>

definition chunk_size :: "nat \<Rightarrow> nat" where
  "chunk_size r =
     (if r mod 8 = 0 then 8
      else if r mod 8 = 1 \<or> r mod 8 = 2 \<or> r mod 8 = 4 then r mod 8
      else 1)"

text \<open>
  \<open>stores_from t off r ss\<close>: the statements \<open>ss\<close> are zero stores to \<open>t\<close>, the first
  at offset \<open>off\<close>, each of the size \<open>chunk_size\<close> gives for the bytes then remaining
  and each starting where the one before ends, until the \<open>r\<close> bytes are used up.
\<close>

fun stores_from :: "var \<Rightarrow> nat \<Rightarrow> nat \<Rightarrow> statement list \<Rightarrow> bool" where
  "stores_from t off r [] = (r = 0)"
| "stores_from t off r (s # ss) =
     (0 < r \<and> store_size s = chunk_size r
      \<and> vtype (st_t s) \<in> {T_CHAR, T_SHORT, T_INT, T_LONG}
      \<and> s = zero_store (t\<lparr>vtype := vtype (st_t s), offset := off\<rparr>)
      \<and> stores_from t (off + chunk_size r) (r - chunk_size r) ss)"

text \<open>The bytes a list of whole-object stores writes, in the order written.\<close>

fun covered :: "statement list \<Rightarrow> nat list" where
  "covered [] = []"
| "covered (s # ss) = [offset (st_t s) ..< offset (st_t s) + store_size s] @ covered ss"

text \<open>
  The shape of a load-time constant as the specification words it: an identity
  expression that is an immediate constant, the address of a symbol with linkage, or
  a direct reference to an array or function of a symbol with linkage.
\<close>

definition loadtime_shape :: "expression \<Rightarrow> bool" where
  "loadtime_shape e =
     (is_identity e
      \<and> (kind (l_var e) = IMMEDIATE
         \<or> (kind (l_var e) = ADDRESS \<and> linkage (symbol (l_var e)) \<noteq> LINK_NONE)
         \<or> (kind (l_var e) = DIRECT \<and> (is_array (etype e) \<or> is_function (etype e))
              \<and> linkage (symbol (l_var e)) \<noteq> LINK_NONE)))"

text \<open>
  \<open>overlaps prev m\<close>: the member has the byte offset and the bit-field offset of the
  member initialized before it.
\<close>

definition overlaps :: "member option \<Rightarrow> member \<Rightarrow> bool" where
  "overlaps prev m =
     (case prev of
        None \<Rightarrow> False
      | Some p \<Rightarrow> m_offset p = m_offset m \<and> m_field_offset p = m_field_offset m)"

text \<open>The order of the keys \<open>(offset, field_offset)\<close>.\<close>

definition key_less :: "statement \<Rightarrow> statement \<Rightarrow> bool" where
  "key_less a b =
     (offset (st_t a) < offset (st_t b)
      \<or> (offset (st_t a) = offset (st_t b) \<and> field_offset (st_t a) < field_offset (st_t b)))"

text \<open>
  The bits of the object an assignment writes: the slice of a bit-field, or all the
  bits of a whole object.
\<close>

definition written_bits :: "statement \<Rightarrow> nat list" where
  "written_bits s =
     (let t = st_t s in
      if field_width t \<noteq> 0
      then [8 * offset t + nat (field_offset t)
              ..< 8 * offset t + nat (field_offset t) + nat (field_width t)]
      else [8 * offset t ..< 8 * (offset t + size_of (vtype t))])"

text \<open>
  No statement of the list assigns a call expression; the expression pending in the
  block, if there is one, is not a call.
\<close>

definition no_call :: "statement list \<Rightarrow> bool" where
  "no_call vals = (\<forall>x \<in> set vals. op (st_expr x) \<noteq> IR_OP_CALL)"

definition pending_ok :: "pstate \<Rightarrow> bool" where
  "pending_ok s = (has_init_value (blk s) \<longrightarrow> op (expr (blk s)) \<noteq> IR_OP_CALL)"

text \<open>
  What the recursive entry points of an engine are shown to guarantee, whenever they
  answer: no expression is left pending; the type of the symbol is untouched; and,
  for a target without linkage, a values buffer free of calls stays free of calls.
\<close>

definition keeps :: "pstate \<Rightarrow> statement list \<Rightarrow> var \<Rightarrow> pstate \<Rightarrow> statement list \<Rightarrow> bool" where
  "keeps s vals target s1 vals1 =
     (\<not> has_init_value (blk s1) \<and> sym_type s1 = sym_type s
      \<and> (linkage (symbol target) = LINK_NONE \<and> pending_ok s \<and> no_call vals \<longrightarrow> no_call vals1))"

definition engine_ok :: "engine \<Rightarrow> bool" where
  "engine_ok E =
     ((\<forall>s vals target s1 vals1.
         rec_member E s vals target = Inr (s1, vals1) \<longrightarrow> keeps s vals target s1 vals1)
    \<and> (\<forall>s init target filled ty state done s1 init1.
         rec_union_loop E s init target filled ty state done = Inr (s1, init1) \<longrightarrow>
         (done \<longrightarrow> \<not> has_init_value (blk s)) \<longrightarrow> keeps s init target s1 init1)
    \<and> (\<forall>s vals target filled ty m i prev state s1 vals1.
         rec_struct_loop E s vals target filled ty m i prev state = Inr (s1, vals1) \<longrightarrow>
         keeps s vals target s1 vals1)
    \<and> (\<forall>s vals target initial width count state i c s1 vals1 c1.
         rec_array_loop E s vals target initial width count state i c = Inr (s1, vals1, c1) \<longrightarrow>
         keeps s vals target s1 vals1))"

text \<open>
  \<open>engine_le E E'\<close>: every result an entry point of \<open>E\<close> gives, the same entry point
  of \<open>E'\<close> gives too.
\<close>

definition engine_le :: "engine \<Rightarrow> engine \<Rightarrow> bool" where
  "engine_le E E' =
     ((\<forall>s vals target r.
         rec_member E s vals target = Inr r \<longrightarrow> rec_member E' s vals target = Inr r)
    \<and> (\<forall>s init target filled ty state dn r.
         rec_union_loop E s init target filled ty state dn = Inr r \<longrightarrow>
         rec_union_loop E' s init target filled ty state dn = Inr r)
    \<and> (\<forall>s vals target filled ty m i prev state r.
         rec_struct_loop E s vals target filled ty m i prev state = Inr r \<longrightarrow>
         rec_struct_loop E' s vals target filled ty m i prev state = Inr r)
    \<and> (\<forall>s vals target initial width count state i c r.
         rec_array_loop E s vals target initial width count state i c = Inr r \<longrightarrow>
         rec_array_loop E' s vals target initial width count state i c = Inr r))"

text \<open>
  The iterations of the union walk, in order: whether the member was named by a
  designator, the target of the member, and the assignments its initializer
  produced into the scratch buffer. \<open>union_trace k\<close> follows the loop run by the
  engine with bound k.
\<close>

record iteration =
  designated :: bool
  member_target :: var
  produced :: "statement list"

primrec union_trace ::
  "nat \<Rightarrow> extern \<Rightarrow> pstate \<Rightarrow> var \<Rightarrow> nat \<Rightarrow> ctype \<Rightarrow> current_object_state \<Rightarrow> bool
     \<Rightarrow> iteration list" where
  "union_trace 0 X s target filled ty state done = []"
| "union_trace (Suc n) X s target filled ty state done =
     (case (if peek s = DOT then
              and_then (consume_identifier (next_token s)) (\<lambda>(name, s1).
              and_then (get_named_member ty name) (\<lambda>(m, idx).
                Inr (Some (access_member target m filled,
                           if peek s1 = ASSIGN then next_token s1 else s1))))
            else if \<not> done then
              and_then (get_member ty 0) (\<lambda>m. Inr (Some (access_member target m filled, s)))
            else Inr None) of
        Inr (Some (target1, s2)) \<Rightarrow>
          (case rec_member (engine_at X n) s2 [] target1 of
             Inr (s3, init3) \<Rightarrow>
               \<lparr>designated = (peek s = DOT), member_target = target1, produced = init3\<rparr>
               # (case next_element state s3 of
                    (True, s4) \<Rightarrow> union_trace n X s4 target1 filled ty state True
                  | (False, s4) \<Rightarrow> [])
           | Inl e \<Rightarrow> [])
      | _ \<Rightarrow> [])"

text \<open>
  The iterations of the array walk, in order: whether the element was named by an
  index designator, and the index of the element written. \<open>array_trace k\<close> follows
  the loop run by the engine with bound k.
\<close>

primrec array_trace ::
  "nat \<Rightarrow> extern \<Rightarrow> pstate \<Rightarrow> statement list \<Rightarrow> var \<Rightarrow> nat \<Rightarrow> nat \<Rightarrow> nat
     \<Rightarrow> current_object_state \<Rightarrow> nat \<Rightarrow> nat \<Rightarrow> (bool \<times> nat) list" where
  "array_trace 0 X s vals target initial width count state i c = []"
| "array_trace (Suc n) X s vals target initial width count state i c =
     (case try_parse_index X s i of
        Inl e \<Rightarrow> []
      | Inr (found, i1, s1) \<Rightarrow>
          (let s2 = (if found \<and> peek s1 = ASSIGN then next_token s1 else s1);
               target1 = target\<lparr>offset := size_t (initial + i1 * width)\<rparr>
           in case rec_member (engine_at X n) s2 vals target1 of
                Inl e \<Rightarrow> []
              | Inr (s3, vals3) \<Rightarrow>
                  (found, i1)
                  # (let i2 = size_t (i1 + 1);
                         c2 = (if i2 > c then i2 else c)
                     in case has_next_array_element state s3 of
                          (True, is_designator) \<Rightarrow>
                            if \<not> is_designator \<and> count \<noteq> 0 \<and> c2 \<ge> count then []
                            else (case consume COMMA s3 of
                                    Inl e \<Rightarrow> []
                                  | Inr s4 \<Rightarrow>
                                      array_trace n X s4 vals3 target1 initial width count
                                        state i2 c2)
                        | (False, is_designator) \<Rightarrow> [])))"

text \<open>The high-water mark of a list of written indices: one past the greatest.\<close>

definition high_water :: "(bool \<times> nat) list \<Rightarrow> nat" where
  "high_water tr = fold (\<lambda>(d, k) c. max c (Suc k)) tr 0"

text \<open>
  The mark as the local \<open>c\<close> of \<open>initialize_array\<close> holds it: the index after each
  written one is computed in \<open>size_t\<close>, so the index after \<open>2 ^ 64 - 1\<close> is 0.
\<close>

definition high_water_size_t :: "(bool \<times> nat) list \<Rightarrow> nat" where
  "high_water_size_t tr = fold (\<lambda>(d, k) c. max c (size_t (Suc k))) tr 0"

text \<open>Two states with the same block and the same symbol type: they differ in the tokens read.\<close>

definition same_block :: "pstate \<Rightarrow> pstate \<Rightarrow> bool" where
  "same_block s s1 = (blk s1 = blk s \<and> sym_type s1 = sym_type s)"

text \<open>
  The test of the string-literal shortcut of \<open>initialize_array\<close>: an expression is
  pending, the elements are char, and the expression is an identity reference to a
  literal symbol whose type is an array.
\<close>

definition string_shortcut :: "ctype \<Rightarrow> pstate \<Rightarrow> bool" where
  "string_shortcut elem s =
     (has_init_value (blk s)
      \<and> is_char elem
      \<and> is_identity (expr (blk s))
      \<and> is_array (etype (expr (blk s)))
      \<and> kind (l_var (expr (blk s))) = DIRECT
      \<and> symtype (symbol (l_var (expr (blk s)))) = SYM_LITERAL)"

section \<open>Properties\<close>

subsection \<open>Basic facts\<close>

lemma and_then_Inr_iff:
  "and_then m f = Inr r \<longleftrightarrow> (\<exists>x. m = Inr x \<and> f x = Inr r)"
  by (cases m) (auto simp: and_then_def)

lemma size_t_code [code]: "size_t n = nat (int n mod 2 ^ 64)"
  by (simp add: size_t_def nat_mod_distrib nat_power_eq)

lemma size_t_less: "n < 2 ^ 64 \<Longrightarrow> size_t n = n"
  by (simp add: size_t_def)

lemma and_then_simps [simp]:
  "and_then (Inl e) f = Inl e" "and_then (Inr x) f = f x"
  by (auto simp: and_then_def)

lemma rec_engine_at_Suc [simp]:
  "rec_member (engine_at X (Suc n)) = initialize_member X (engine_at X n)"
  "rec_union_loop (engine_at X (Suc n)) = union_loop X (engine_at X n)"
  "rec_struct_loop (engine_at X (Suc n)) = struct_loop X (engine_at X n)"
  "rec_array_loop (engine_at X (Suc n)) = array_loop X (engine_at X n)"
  by (simp_all add: Let_def)

lemma rec_engine_at_0 [simp]:
  "rec_member (engine_at X 0) s vals target = Inl OutOfFuel"
  "rec_union_loop (engine_at X 0) s vals target filled ty state done = Inl OutOfFuel"
  "rec_struct_loop (engine_at X 0) s vals target filled ty m i prev state = Inl OutOfFuel"
  "rec_array_loop (engine_at X 0) s vals target initial width count state i c = Inl OutOfFuel"
  by simp_all

declare engine_at.simps [simp del]

lemmas token_defs = peek_def peekn_def next_token_def consume_def consume_identifier_def

lemmas example_defs = start_def empty_block_def X0_def sym_x_def sym_g_def imm_int_def
  var__immediate_zero_def as_expr_def direct_target_def var_direct_def null_symbol_def

lemmas engine_defs = initialize_member_def initialize_struct_or_union_def initialize_struct_def
  initialize_union_def initialize_array_def struct_loop_def union_loop_def array_loop_def
  read_initializer_element_def parse_assignment_expression_def assign_initializer_element_def
  try_parse_index_def next_element_def has_next_array_element_def get_named_member_def
  find_type_member_def get_member_def nmembers_def access_member_def eval_assign_def
  is_struct_or_union_def is_void_def is_compatible_unqualified_def is_char_def is_identity_def
  type_handle_def size_t_def Let_def

lemmas post_defs = postprocess_object_initialization_def sort_and_trim_def sort_loop.simps
  initialize_padding_def initialize_trailing_padding_def zero_initialize_bytes_def
  zero_bytes_loop.simps zero_initialize.simps validate_initializer_block_def zero_var_def
  eval_assign_def Let_def

subsection \<open>Zero-fill of a byte range\<close>

lemma zero_initialize_scalar:
  "kind target = DIRECT \<Longrightarrow> vtype target \<in> {T_CHAR, T_SHORT, T_INT, T_LONG} \<Longrightarrow>
   zero_initialize vs target = Inr (vs @ [zero_store target])"
  by (auto simp: zero_initialize.simps eval_assign_def zero_store_def)

lemma chunk_size_le: "0 < r \<Longrightarrow> chunk_size r \<le> r \<and> 0 < chunk_size r"
  unfolding chunk_size_def by (auto split: if_splits)

lemma stores_from_cong:
  "stores_from (t\<lparr>vtype := a, offset := b\<rparr>) off r ss = stores_from t off r ss"
  by (induction ss arbitrary: off r) auto

lemma zero_bytes_loop_stores:
  "kind target = DIRECT \<Longrightarrow>
   \<exists>ss. zero_bytes_loop vs target n = Inr (vs @ ss) \<and> stores_from target (offset target) n ss"
proof (induction n arbitrary: vs target rule: less_induct)
  case (less n)
  show ?case
  proof (cases "n = 0")
    case True
    then show ?thesis by (simp add: zero_bytes_loop.simps)
  next
    case False
    define ty where "ty = (if n mod 8 = 1 then T_CHAR else if n mod 8 = 2 then T_SHORT
       else if n mod 8 = 4 then T_INT else if n mod 8 = 0 then T_LONG else T_CHAR)"
    have sz: "size_of ty = chunk_size n"
      unfolding ty_def chunk_size_def by auto
    have tyin: "ty \<in> {T_CHAR, T_SHORT, T_INT, T_LONG}"
      unfolding ty_def by auto
    let ?t = "target\<lparr>vtype := ty\<rparr>"
    let ?t' = "?t\<lparr>offset := offset target + chunk_size n\<rparr>"
    have z: "zero_initialize vs ?t = Inr (vs @ [zero_store ?t])"
      using less.prems tyin by (intro zero_initialize_scalar) auto
    have le: "chunk_size n \<le> n" "0 < chunk_size n"
      using chunk_size_le False by auto
    have step: "zero_bytes_loop vs target n =
        zero_bytes_loop (vs @ [zero_store ?t]) ?t' (n - chunk_size n)"
      using False z sz le
      by (subst zero_bytes_loop.simps)
         (auto simp: ty_def chunk_size_def Let_def split: if_splits)
    have "n - chunk_size n < n"
      using le False by simp
    moreover have "kind ?t' = DIRECT"
      using less.prems by simp
    ultimately obtain ss where
      ss: "zero_bytes_loop (vs @ [zero_store ?t]) ?t' (n - chunk_size n)
             = Inr ((vs @ [zero_store ?t]) @ ss)"
          "stores_from ?t' (offset ?t') (n - chunk_size n) ss"
      using less.IH by blast
    have "stores_from target (offset target + chunk_size n) (n - chunk_size n) ss"
      using ss(2) stores_from_cong [where t = target and a = ty
          and b = "offset target + chunk_size n"]
      by simp
    then have "stores_from target (offset target) n (zero_store ?t # ss)"
      using False sz tyin by (simp add: store_size_def zero_store_def)
    then show ?thesis
      using step ss(1) by auto
  qed
qed

lemma stores_from_covered:
  "stores_from t off r ss \<Longrightarrow> covered ss = [off ..< off + r]"
proof (induction ss arbitrary: off r)
  case Nil
  then show ?case by simp
next
  case (Cons s ss)
  have le: "chunk_size r \<le> r"
    using Cons.prems chunk_size_le by auto
  have "covered ss = [off + chunk_size r ..< off + chunk_size r + (r - chunk_size r)]"
    using Cons by simp
  moreover have "offset (st_t s) = off"
    using Cons.prems by (auto simp: zero_store_def)
  moreover have "[off..<off + chunk_size r] @ [off + chunk_size r..<off + r] = [off..<off + r]"
    using le upt_add_eq_append [of off "off + chunk_size r" "r - chunk_size r"] by simp
  ultimately show ?case
    using Cons.prems le by simp
qed

text \<open>
  C3, as amended. For a direct target, \<open>zero_initialize_bytes(target, n)\<close> succeeds
  and appends zero stores (bit-field position and width cleared) that start at
  \<open>target.offset\<close>, follow one another without gap, and have at each step the size the
  source's rule gives for the bytes remaining: 8 when the remaining count is a
  multiple of 8, the remainder modulo 8 when that is 1, 2 or 4, and 1 otherwise. The
  stores write exactly the n bytes from \<open>target.offset\<close> on, each once.
\<close>

theorem zero_initialize_bytes_stores:
  "kind target = DIRECT \<Longrightarrow>
   \<exists>ss. zero_initialize_bytes vs target n = Inr (vs @ ss)
      \<and> stores_from (target\<lparr>field_offset := 0, field_width := 0\<rparr>) (offset target) n ss
      \<and> covered ss = [offset target ..< offset target + n]"
  using zero_bytes_loop_stores [of "target\<lparr>field_offset := 0, field_width := 0\<rparr>" vs n]
  by (auto simp: zero_initialize_bytes_def dest: stores_from_covered)

theorem zero_initialize_bytes_stores_witness:
  "\<exists>ss. zero_initialize_bytes [] (direct_target T_LONG) 12 = Inr ([] @ ss)
      \<and> stores_from ((direct_target T_LONG)\<lparr>field_offset := 0, field_width := 0\<rparr>)
           (offset (direct_target T_LONG)) 12 ss
      \<and> covered ss = [offset (direct_target T_LONG) ..< offset (direct_target T_LONG) + 12]"
proof -
  have "kind (direct_target T_LONG) = DIRECT"
    by (simp add: direct_target_def var_direct_def)
  from zero_initialize_bytes_stores [OF this] show ?thesis .
qed

text \<open>
  C3 as stated fails: for 3 bytes the source stores a char and then a short, while
  the largest power of two that fits in 3 bytes is 2.
\<close>

theorem zero_initialize_bytes_counterexample:
  "zero_initialize_bytes [] (direct_target T_LONG) 3
     = Inr [zero_store ((direct_target T_LONG)\<lparr>vtype := T_CHAR\<rparr>),
            zero_store ((direct_target T_LONG)\<lparr>vtype := T_SHORT, offset := 1\<rparr>)]
   \<and> store_size (zero_store ((direct_target T_LONG)\<lparr>vtype := T_CHAR\<rparr>)) = 1
   \<and> largest_fit 3 = 2"
  by (simp add: zero_initialize_bytes_def zero_bytes_loop.simps zero_initialize.simps
        direct_target_def var_direct_def eval_assign_def zero_store_def store_size_def
        largest_fit_def)

subsection \<open>Designator probes\<close>

text \<open>
  C2, as amended. When a comma is next: followed by \<open>.\<close>, the probe of the struct
  and union walks reports a continuation exactly when the state is CURRENT, and
  consumes the comma exactly then; followed by \<open>[\<close>, the probe of the array walk
  reports a continuation (a designator) exactly when the state is CURRENT; followed
  by \<open>.\<close>, the probe of the array walk reports no continuation in any state. The
  probe of the array walk consumes nothing. (What the struct and union probe does on
  a comma followed by \<open>[\<close> is not part of the statement.)
\<close>

theorem designator_probe:
  "peek s = COMMA \<Longrightarrow>
     (peekn 2 s = DOT \<longrightarrow>
        next_element state s = (state = CURRENT, if state = CURRENT then next_token s else s))
   \<and> (peekn 2 s = LBRACKET \<longrightarrow>
        has_next_array_element state s = (state = CURRENT, state = CURRENT))
   \<and> (peekn 2 s = DOT \<longrightarrow> has_next_array_element state s = (False, False))"
  by (auto simp: next_element_def has_next_array_element_def)

theorem designator_probe_witness:
  "next_element CURRENT (start T_INT [COMMA, DOT]) = (True, start T_INT [DOT])
   \<and> next_element MEMBER (start T_INT [COMMA, DOT]) = (False, start T_INT [COMMA, DOT])
   \<and> has_next_array_element DESIGNATOR (start T_INT [COMMA, LBRACKET]) = (False, False)"
  using designator_probe [of "start T_INT [COMMA, DOT]" CURRENT]
    designator_probe [of "start T_INT [COMMA, DOT]" MEMBER]
    designator_probe [of "start T_INT [COMMA, LBRACKET]" DESIGNATOR]
  by (simp add: start_def peek_def peekn_def next_token_def)

text \<open>
  C2 as stated fails: inside the braces of an array (state CURRENT), a comma
  followed by \<open>.\<close> is not a continuation for the probe of the array walk.
\<close>

theorem array_probe_dot_counterexample:
  "peek (start T_INT [COMMA, DOT]) = COMMA \<and> peekn 2 (start T_INT [COMMA, DOT]) = DOT
   \<and> fst (has_next_array_element CURRENT (start T_INT [COMMA, DOT])) = False"
  by (simp add: start_def peek_def peekn_def has_next_array_element_def)

subsection \<open>Load-time constants\<close>

lemma is_loadtime_constant_iff: "is_loadtime_constant e = loadtime_shape e"
  by (cases "kind (l_var e)") (auto simp: is_loadtime_constant_def loadtime_shape_def)

text \<open>
  C6, as amended. For a symbol with external or internal linkage, once the
  expression is parsed and is not of type void, the element is accepted exactly when
  the expression parser stayed in the same block, emitted no statement, and left an
  identity expression that is an immediate constant, the address of a symbol with
  linkage, or a direct reference to an array or function of a symbol with linkage;
  the expression is then pending. In every other case the engine stops with
  "Initializer must be computable at load time.".
\<close>

theorem read_initializer_element_linkage:
  assumes "linkage symb \<noteq> LINK_NONE" and "\<not> has_init_value (blk s)"
    and "parse_assignment_expression X s = Inr s1"
    and "\<not> is_void (etype (expr (blk s1)))"
  shows "(if block_id (blk s1) = block_id (blk s)
             \<and> length (code (blk s1)) = length (code (blk s))
             \<and> loadtime_shape (expr (blk s1))
          then read_initializer_element X s symb
                 = Inr (s1\<lparr>blk := (blk s1)\<lparr>has_init_value := True\<rparr>\<rparr>)
          else read_initializer_element X s symb
                 = Inl (Fatal ''Initializer must be computable at load time.''))"
  using assms
  by (auto simp: read_initializer_element_def is_loadtime_constant_iff loadtime_shape_def
        and_then_Inr_iff)

theorem read_initializer_element_linkage_witness:
  "read_initializer_element X0 (start T_INT [OTHER 7]) sym_g
     = Inr ((start T_INT [])\<lparr>blk := empty_block\<lparr>expr := as_expr (imm_int 7),
                                                  has_init_value := True\<rparr>\<rparr>)"
proof -
  let ?s1 = "(start T_INT [])\<lparr>blk := empty_block\<lparr>expr := as_expr (imm_int 7)\<rparr>\<rparr>"
  have p: "parse_assignment_expression X0 (start T_INT [OTHER 7]) = Inr ?s1"
    by (simp add: parse_assignment_expression_def X0_def start_def empty_block_def)
  have "linkage sym_g \<noteq> LINK_NONE" "\<not> has_init_value (blk (start T_INT [OTHER 7]))"
    "\<not> is_void (etype (expr (blk ?s1)))"
    by (simp_all add: sym_g_def start_def empty_block_def is_void_def as_expr_def imm_int_def
          var__immediate_zero_def)
  from read_initializer_element_linkage [OF this(1,2) p this(3)]
  show ?thesis
    by (simp add: loadtime_shape_def is_identity_def as_expr_def imm_int_def
          var__immediate_zero_def start_def empty_block_def)
qed

text \<open>
  C6 as stated fails: for an initializer such as \<open>(f(), 5)\<close> the expression left by
  the parser is the immediate constant 5, an identity expression, and the element is
  rejected all the same, because the parser has emitted a statement.
\<close>

theorem loadtime_emitted_counterexample:
  "parse_assignment_expression comma_call_parser (start T_INT [OTHER 0])
     = Inr ((start T_INT [])\<lparr>blk := empty_block\<lparr>expr := as_expr (imm_int 5),
              code := [\<lparr>st = IR_EXPR, st_t = var__immediate_zero,
                        st_expr = call_expr ''f''\<rparr>]\<rparr>\<rparr>)
   \<and> loadtime_shape (as_expr (imm_int 5))
   \<and> read_initializer_element comma_call_parser (start T_INT [OTHER 0]) sym_g
       = Inl (Fatal ''Initializer must be computable at load time.'')"
  by (simp add: parse_assignment_expression_def comma_call_parser_def start_def empty_block_def
        loadtime_shape_def is_identity_def as_expr_def imm_int_def var__immediate_zero_def
        read_initializer_element_def is_void_def sym_g_def)

subsection \<open>Positional walk of a struct\<close>

text \<open>
  What the skip of the positional branch does when it finds a member: the members
  passed over all have the byte offset and the bit-field offset of \<open>prev\<close>, and the
  member taken does not.
\<close>

lemma next_member_skips:
  "next_member t i prev = Inr (m, j) \<Longrightarrow>
     i < j \<and> j \<le> nmembers t \<and> m = members t ! (j - 1)
     \<and> (\<forall>k. i \<le> k \<and> k < j - 1 \<longrightarrow> overlaps prev (members t ! k))
     \<and> \<not> overlaps prev m"
proof (induction t i prev rule: next_member.induct)
  case (1 t i prev)
  from "1.prems" have inr: "i < nmembers t"
    by (subst (asm) next_member.simps) (auto simp: get_member_def split: if_splits)
  let ?m = "members t ! i"
  show ?case
  proof (cases "overlaps prev ?m")
    case False
    with "1.prems" inr show ?thesis
      by (subst (asm) next_member.simps)
         (auto simp: get_member_def overlaps_def split: option.splits)
  next
    case True
    with "1.prems" inr have rec: "next_member t (i + 1) prev = Inr (m, j)"
      by (subst (asm) next_member.simps)
         (auto simp: get_member_def overlaps_def split: option.splits)
    have later: "i + 1 < j \<and> j \<le> nmembers t \<and> m = members t ! (j - 1)
        \<and> (\<forall>k. i + 1 \<le> k \<and> k < j - 1 \<longrightarrow> overlaps prev (members t ! k))
        \<and> \<not> overlaps prev m"
      using "1.IH" [of ?m] inr True rec
      by (auto simp: get_member_def overlaps_def split: option.splits)
    have "overlaps prev (members t ! k)" if "i \<le> k" "k < j - 1" for k
    proof (cases "k = i")
      case True
      then show ?thesis using \<open>overlaps prev ?m\<close> by simp
    next
      case False
      then have "i + 1 \<le> k" using that by simp
      then show ?thesis using later that by blast
    qed
    with later show ?thesis by auto
  qed
qed

text \<open>
  C8 (the code departs from the claim). The positional branch of the struct walk
  compares a member with \<open>prev\<close>, the member initialized just before, and with no
  other. For \<open>struct { union { struct { int p, q; }; int r; }; int d; } x = {1, 2, 3}\<close>
  the member r shares its storage with p, the first declared member of the
  anonymous union, but follows q: it is not skipped and receives the third element,
  d receives none, and after post-processing the write to p is gone. The bound
  \<open>i >= m\<close> is tested only after a member has been initialized, so when the members
  that overlap \<open>prev\<close> are the last of the struct and an element is left, as for
  \<open>struct S { int d; union { int a; char b; }; }\<close> inside
  \<open>struct { struct S s; int z; } y = {1, 2, 3}\<close>, the skip runs past the last member.
\<close>

theorem positional_walk_overlap_defects:
  "initialize_object 4 X0 (start struct_pqrd tokens_123) [] (direct_target struct_pqrd)
   = Inr ((start struct_pqrd [])\<lparr>blk := empty_block\<lparr>expr := as_expr (imm_int 3)\<rparr>\<rparr>,
          [assign_member struct_pqrd 0 1, assign_member struct_pqrd 1 2,
           assign_member struct_pqrd 2 3])
   \<and> overlaps (Some (members struct_pqrd ! 0)) (members struct_pqrd ! 2)
   \<and> postprocess_object_initialization
         [assign_member struct_pqrd 0 1, assign_member struct_pqrd 1 2,
          assign_member struct_pqrd 2 3] (direct_target struct_pqrd)
       = Inr [assign_member struct_pqrd 2 3, assign_member struct_pqrd 1 2,
              zero_store ((direct_target struct_pqrd)\<lparr>vtype := T_INT, offset := 8\<rparr>)]
   \<and> initialize_object 4 X0 (start struct_sz tokens_123) [] (direct_target struct_sz)
       = Inl (AssertFail ''get_member: index'')"
proof -
  have "initialize_object 4 X0 (start struct_pqrd tokens_123) [] (direct_target struct_pqrd)
   = Inr ((start struct_pqrd [])\<lparr>blk := empty_block\<lparr>expr := as_expr (imm_int 3)\<rparr>\<rparr>,
          [assign_member struct_pqrd 0 1, assign_member struct_pqrd 1 2,
           assign_member struct_pqrd 2 3])"
    by code_simp
  moreover have "overlaps (Some (members struct_pqrd ! 0)) (members struct_pqrd ! 2)"
    by (simp add: overlaps_def struct_pqrd_def)
  moreover have "postprocess_object_initialization
         [assign_member struct_pqrd 0 1, assign_member struct_pqrd 1 2,
          assign_member struct_pqrd 2 3] (direct_target struct_pqrd)
       = Inr [assign_member struct_pqrd 2 3, assign_member struct_pqrd 1 2,
              zero_store ((direct_target struct_pqrd)\<lparr>vtype := T_INT, offset := 8\<rparr>)]"
    by code_simp
  moreover have "initialize_object 4 X0 (start struct_sz tokens_123) [] (direct_target struct_sz)
       = Inl (AssertFail ''get_member: index'')"
    by code_simp
  ultimately show ?thesis
    by simp
qed

subsection \<open>What every walk of the engine keeps\<close>

lemma same_block_refl [simp]: "same_block s s"
  by (simp add: same_block_def)

lemma same_block_next_token [simp]: "same_block s (next_token s)"
  by (simp add: same_block_def next_token_def)

lemma same_block_next_token_iff [simp]:
  "same_block s (next_token s1) = same_block s s1" "same_block (next_token s) s1 = same_block s s1"
  by (simp_all add: same_block_def next_token_def)

lemma same_block_trans: "same_block s s1 \<Longrightarrow> same_block s1 s2 \<Longrightarrow> same_block s s2"
  by (simp add: same_block_def)

lemma same_block_consume: "consume t s = Inr s1 \<Longrightarrow> same_block s s1"
  by (auto simp: consume_def split: if_splits)

lemma same_block_consume_identifier: "consume_identifier s = Inr (name, s1) \<Longrightarrow> same_block s s1"
  by (auto simp: consume_identifier_def split: token.splits)

lemma same_block_next_element: "next_element state s = (b, s1) \<Longrightarrow> same_block s s1"
  by (auto simp: next_element_def split: if_splits token.splits)

lemma same_block_try_parse_index:
  "try_parse_index X s i = Inr (found, i1, s1) \<Longrightarrow> same_block s s1"
  by (auto simp: try_parse_index_def and_then_Inr_iff same_block_def consume_def next_token_def 
      split: if_splits option.splits)

lemma keeps_pre: "same_block s s0 \<Longrightarrow> keeps s0 vals t s1 vals1 \<Longrightarrow> keeps s vals t s1 vals1"
  by (auto simp: keeps_def same_block_def pending_ok_def)

lemma keeps_post: "keeps s vals t s1 vals1 \<Longrightarrow> same_block s1 s2 \<Longrightarrow> keeps s vals t s2 vals1"
  by (auto simp: keeps_def same_block_def)

lemma keeps_trans:
  "keeps s vals t s1 vals1 \<Longrightarrow> keeps s1 vals1 t1 s2 vals2 \<Longrightarrow> symbol t1 = symbol t
   \<Longrightarrow> keeps s vals t s2 vals2"
  by (auto simp: keeps_def pending_ok_def)

lemma keeps_target: "keeps s vals t s1 vals1 \<Longrightarrow> symbol t1 = symbol t \<Longrightarrow> keeps s vals t1 s1 vals1"
  by (auto simp: keeps_def)

lemma symbol_access_member [simp]: "symbol (access_member t m filled) = symbol t"
  by (simp add: access_member_def)

lemma read_initializer_element_keeps:
  assumes "read_initializer_element X s symb = Inr s1"
  shows "has_init_value (blk s1) \<and> sym_type s1 = sym_type s
         \<and> (linkage symb = LINK_NONE \<longrightarrow> op (expr (blk s1)) \<noteq> IR_OP_CALL)"
  using assms
  by (auto simp: read_initializer_element_def and_then_Inr_iff parse_assignment_expression_def
        create_var_def as_expr_def Let_def
      split: if_splits option.splits prod.splits)

lemma assign_initializer_element_keeps:
  assumes "assign_initializer_element s vals t = Inr (s1, vals1)"
  shows "keeps s vals t s1 vals1"
  using assms
  by (auto simp: assign_initializer_element_def keeps_def Let_def eval_assign_def no_call_def
        pending_ok_def split: if_splits)

lemma engine_ok_member:
  "engine_ok E \<Longrightarrow> rec_member E s vals t = Inr (s1, vals1) \<Longrightarrow> keeps s vals t s1 vals1"
  by (simp add: engine_ok_def)

lemma engine_ok_union_loop:
  "engine_ok E \<Longrightarrow> rec_union_loop E s init t filled ty state done = Inr (s1, init1) \<Longrightarrow>
   (done \<Longrightarrow> \<not> has_init_value (blk s)) \<Longrightarrow> keeps s init t s1 init1"
  by (simp add: engine_ok_def)

lemma engine_ok_struct_loop:
  "engine_ok E \<Longrightarrow> rec_struct_loop E s vals t filled ty m i prev state = Inr (s1, vals1) \<Longrightarrow>
   keeps s vals t s1 vals1"
  by (simp add: engine_ok_def)

lemma engine_ok_array_loop:
  "engine_ok E \<Longrightarrow> rec_array_loop E s vals t initial width count state i c = Inr (s1, vals1, c1)
   \<Longrightarrow> keeps s vals t s1 vals1"
  by (fastforce simp: engine_ok_def)

lemma union_loop_keeps:
  assumes ok: "engine_ok E"
    and run: "union_loop X E s init t filled ty state done = Inr (s1, init1)"
    and dn: "done \<Longrightarrow> \<not> has_init_value (blk s)"
  shows "keeps s init t s1 init1"
proof -
  from run obtain r where
    sel: "(if peek s = DOT then
          and_then (consume_identifier (next_token s)) (\<lambda>(name, s1).
          and_then (get_named_member ty name) (\<lambda>(m, idx).
            Inr (Some (access_member t m filled,
                       if peek s1 = ASSIGN then next_token s1 else s1))))
        else if \<not> done then
          and_then (get_member ty 0) (\<lambda>m. Inr (Some (access_member t m filled, s)))
        else Inr None) = Inr r"
    and rest: "(case r of
          None \<Rightarrow> Inr (s, init)
        | Some (target1, s2) \<Rightarrow>
            and_then (rec_member E s2 [] target1) (\<lambda>(s3, init3).
              case next_element state s3 of
                (True, s4) \<Rightarrow> rec_union_loop E s4 init3 target1 filled ty state True
              | (False, s4) \<Rightarrow> Inr (s4, init3))) = Inr (s1, init1)"
    unfolding union_loop_def and_then_Inr_iff by blast
  show ?thesis
  proof (cases r)
    case None
    with sel have "done" by (auto simp: and_then_Inr_iff split: if_splits prod.splits)
    with None rest dn show ?thesis
      by (auto simp: keeps_def)
  next
    case (Some p)
    obtain target1 s2 where p: "p = (target1, s2)" by (cases p)
    from sel Some p have sb: "same_block s s2" and sy: "symbol target1 = symbol t"
      by (auto simp: and_then_Inr_iff split: if_splits prod.splits
          dest!: same_block_consume_identifier)
    from rest Some p obtain s3 init3 where
      m: "rec_member E s2 [] target1 = Inr (s3, init3)"
      and nx: "(case next_element state s3 of
                (True, s4) \<Rightarrow> rec_union_loop E s4 init3 target1 filled ty state True
              | (False, s4) \<Rightarrow> Inr (s4, init3)) = Inr (s1, init1)"
      by (auto simp: and_then_Inr_iff)
    have k1: "keeps s2 [] target1 s3 init3"
      using engine_ok_member [OF ok m] .
    obtain b s4 where ne: "next_element state s3 = (b, s4)" by (cases "next_element state s3")
    have sb4: "same_block s3 s4" using same_block_next_element [OF ne] .
    have k2: "keeps s2 [] target1 s1 init1"
    proof (cases b)
      case False
      with nx ne have "s1 = s4" "init1 = init3" by auto
      with k1 sb4 show ?thesis by (auto intro: keeps_post)
    next
      case True
      with nx ne have "rec_union_loop E s4 init3 target1 filled ty state True = Inr (s1, init1)"
        by auto
      moreover have "\<not> has_init_value (blk s4)"
        using k1 sb4 by (simp add: keeps_def same_block_def)
      ultimately have "keeps s4 init3 target1 s1 init1"
        using engine_ok_union_loop [OF ok] by blast
      with keeps_post [OF k1 sb4] show ?thesis
        by (rule keeps_trans) simp
    qed
    have "keeps s [] t s1 init1"
      using keeps_pre [OF sb k2] sy by (auto intro: keeps_target)
    then show ?thesis
      by (auto simp: keeps_def no_call_def)
  qed
qed

lemma keeps_append:
  "keeps s [] t s1 init \<Longrightarrow> keeps s vals t s1 (vals @ init)"
  by (auto simp: keeps_def no_call_def)

lemma initialize_union_keeps:
  assumes ok: "engine_ok E"
    and run: "initialize_union X E s vals t state = Inr (s1, vals1)"
  shows "keeps s vals t s1 vals1"
proof -
  from run obtain init where
    "union_loop X E s [] t (offset t) (vtype t) state False = Inr (s1, init)"
    and "vals1 = vals @ init"
    by (auto simp: initialize_union_def and_then_Inr_iff split: if_splits)
  with union_loop_keeps [OF ok this(1)] show ?thesis
    by (simp add: keeps_append)
qed

lemma loop_tail_keeps:
  assumes k: "keeps s vals t s3 vals3" and sy: "symbol target1 = symbol t"
    and ne: "next_element state s3 = (b, s4)"
    and tl: "if b then keeps s4 vals3 target1 s1 vals1 else (s1 = s4 \<and> vals1 = vals3)"
  shows "keeps s vals t s1 vals1"
proof -
  have k4: "keeps s vals t s4 vals3"
    using keeps_post [OF k same_block_next_element [OF ne]] .
  show ?thesis
  proof (cases b)
    case True
    with tl have "keeps s4 vals3 target1 s1 vals1" by simp
    with k4 show ?thesis using sy by (rule keeps_trans)
  next
    case False
    with tl k4 show ?thesis by simp
  qed
qed

lemma struct_loop_keeps:
  assumes ok: "engine_ok E"
    and run: "struct_loop X E s vals t filled ty m i prev state = Inr (s1, vals1)"
  shows "keeps s vals t s1 vals1"
proof -
  from run obtain s3 vals3 target1 prev1 i1 brk where
    hd: "(if \<not> has_init_value (blk s) \<and> peek s = DOT then
          and_then (consume_identifier (next_token s)) (\<lambda>(name, s1).
          and_then (get_named_member ty name) (\<lambda>(mem, idx).
            let target1 = access_member t mem filled;
                s2 = (if peek s1 = ASSIGN then next_token s1 else s1)
            in and_then (rec_member E s2 vals target1) (\<lambda>(s3, vals3).
                 Inr (s3, vals3, target1, Some mem, idx + 1, False))))
        else
          and_then (next_member ty i prev) (\<lambda>(mem, i1).
            let target1 = access_member t mem filled
            in and_then (rec_member E s vals target1) (\<lambda>(s3, vals3).
                 Inr (s3, vals3, target1, Some mem, i1, i1 \<ge> m))))
       = Inr (s3, vals3, target1, prev1, i1, brk)"
    and tl: "(if brk then Inr (s3, vals3)
          else case next_element state s3 of
                 (True, s4) \<Rightarrow> rec_struct_loop E s4 vals3 target1 filled ty m i1 prev1 state
               | (False, s4) \<Rightarrow> Inr (s4, vals3)) = Inr (s1, vals1)"
    unfolding struct_loop_def and_then_Inr_iff by auto
  have "\<exists>s2. same_block s s2 \<and> symbol target1 = symbol t
      \<and> rec_member E s2 vals target1 = Inr (s3, vals3)"
  proof (cases "\<not> has_init_value (blk s) \<and> peek s = DOT")
    case True
    with hd obtain name sa mem where
      ci: "consume_identifier (next_token s) = Inr (name, sa)"
      and t1: "target1 = access_member t mem filled"
      and rm: "rec_member E (if peek sa = ASSIGN then next_token sa else sa) vals target1
                 = Inr (s3, vals3)"
      by (auto simp: and_then_Inr_iff Let_def)
    have "same_block s (if peek sa = ASSIGN then next_token sa else sa)"
      using same_block_consume_identifier [OF ci] by simp
    with t1 rm show ?thesis by auto
  next
    case False
    with hd obtain mem where
      t1: "target1 = access_member t mem filled"
      and rm: "rec_member E s vals target1 = Inr (s3, vals3)"
      by (auto simp: and_then_Inr_iff Let_def)
    then have "same_block s s \<and> symbol target1 = symbol t
        \<and> rec_member E s vals target1 = Inr (s3, vals3)"
      by simp
    then show ?thesis by (rule exI)
  qed
  then obtain s2 where sb: "same_block s s2" and sy: "symbol target1 = symbol t"
    and m: "rec_member E s2 vals target1 = Inr (s3, vals3)"
    by blast
  have k: "keeps s vals t s3 vals3"
    using keeps_pre [OF sb engine_ok_member [OF ok m]] sy by (auto intro: keeps_target)
  show ?thesis
  proof (cases brk)
    case True
    with tl k show ?thesis by simp
  next
    case False
    obtain b s4 where ne: "next_element state s3 = (b, s4)" by (cases "next_element state s3")
    have "if b then keeps s4 vals3 target1 s1 vals1 else (s1 = s4 \<and> vals1 = vals3)"
      using tl False ne engine_ok_struct_loop [OF ok] by (cases b) auto
    from loop_tail_keeps [OF k sy ne this] show ?thesis .
  qed  
qed

lemma initialize_struct_keeps:
  assumes ok: "engine_ok E"
    and run: "initialize_struct X E s vals t state = Inr (s1, vals1)"
  shows "keeps s vals t s1 vals1"
proof -
  from run have "struct_loop X E s vals (t\<lparr>lvalue := True\<rparr>) (offset t) (vtype t)
             (nmembers (vtype t)) 0 None state = Inr (s1, vals1)"
    by (auto simp: initialize_struct_def split: if_splits)
  from struct_loop_keeps [OF ok this] show ?thesis
    by (auto intro: keeps_target)
qed

lemma first_read_keeps:
  assumes "(if \<not> has_init_value (blk s) then
             (if peek s = DOT \<or> peek s = LBRACE \<or> peek s = LBRACKET then Inr s
              else read_initializer_element X s symb)
           else Inr s) = Inr s1"
  shows "sym_type s1 = sym_type s
         \<and> (linkage symb = LINK_NONE \<and> pending_ok s \<longrightarrow> pending_ok s1)"
  using assms
  by (auto simp: pending_ok_def split: if_splits dest!: read_initializer_element_keeps)

lemma keeps_first_read:
  assumes "sym_type s1 = sym_type s
         \<and> (linkage (symbol t) = LINK_NONE \<and> pending_ok s \<longrightarrow> pending_ok s1)"
    and "keeps s1 vals t s2 vals2"
  shows "keeps s vals t s2 vals2"
  using assms by (auto simp: keeps_def)

lemma initialize_struct_or_union_keeps:
  assumes ok: "engine_ok E"
    and run: "initialize_struct_or_union X E s vals t state = Inr (s1, vals1)"
  shows "keeps s vals t s1 vals1"
proof -
  let ?rd = "if \<not> has_init_value (blk s) then
             (if peek s = DOT \<or> peek s = LBRACE \<or> peek s = LBRACKET then Inr s
              else read_initializer_element X s (symbol t))
           else Inr s"
  from run have "and_then ?rd (\<lambda>s0. if has_init_value (blk s0)
                \<and> is_compatible_unqualified (vtype t) (etype (expr (blk s0)))
             then Inr (s0\<lparr>blk := (blk s0)\<lparr>has_init_value := False\<rparr>\<rparr>,
                       eval_assign vals t (expr (blk s0)))
             else if is_union (vtype t) then initialize_union X E s0 vals t state
             else initialize_struct X E s0 vals t state) = Inr (s1, vals1)"
    unfolding initialize_struct_or_union_def
    by (cases "is_struct_or_union (vtype t)"; cases "nmembers (vtype t) > 0") simp_all
  then obtain s0 where
    rd: "?rd = Inr s0"
    and rest: "(if has_init_value (blk s0)
                \<and> is_compatible_unqualified (vtype t) (etype (expr (blk s0)))
             then Inr (s0\<lparr>blk := (blk s0)\<lparr>has_init_value := False\<rparr>\<rparr>,
                       eval_assign vals t (expr (blk s0)))
             else if is_union (vtype t) then initialize_union X E s0 vals t state
             else initialize_struct X E s0 vals t state) = Inr (s1, vals1)"
    unfolding and_then_Inr_iff by blast
  have "keeps s0 vals t s1 vals1"
  proof (cases "has_init_value (blk s0)
                \<and> is_compatible_unqualified (vtype t) (etype (expr (blk s0)))")
    case True
    with rest show ?thesis
      by (auto simp: keeps_def eval_assign_def no_call_def pending_ok_def)
  next
    case False
    with rest initialize_union_keeps [OF ok] initialize_struct_keeps [OF ok]
    show ?thesis by (cases "is_union (vtype t)") auto
  qed
  with first_read_keeps [OF rd] show ?thesis
    by (rule keeps_first_read)
qed

lemma if_less_max: "(if (c::nat) < k then k else c) = max c k"
  by (simp add: max_def)

lemma array_loop_cases:
  assumes "array_loop X E s vals t initial width count state i c = Inr (s1, vals1, c1)"
  shows "\<exists>found i1 s0 s3 vals3 b d.
           try_parse_index X s i = Inr (found, i1, s0)
         \<and> rec_member E (if found \<and> peek s0 = ASSIGN then next_token s0 else s0) vals
              (t\<lparr>offset := size_t (initial + i1 * width)\<rparr>) = Inr (s3, vals3)
         \<and> has_next_array_element state s3 = (b, d)
         \<and> (if b \<and> \<not> (\<not> d \<and> count \<noteq> 0 \<and> count \<le> max c (size_t (Suc i1)))
            then \<exists>s4. consume COMMA s3 = Inr s4
                    \<and> rec_array_loop E s4 vals3 (t\<lparr>offset := size_t (initial + i1 * width)\<rparr>)
                         initial width count state (size_t (Suc i1)) (max c (size_t (Suc i1)))
                       = Inr (s1, vals1, c1)
            else s1 = s3 \<and> vals1 = vals3 \<and> c1 = max c (size_t (Suc i1)))"
  using assms unfolding array_loop_def Let_def
  apply (clarsimp simp: and_then_Inr_iff if_less_max split del: if_split)
  subgoal for found i1 s0 s3 vals3
    apply (cases "has_next_array_element state s3")
    subgoal for b d
      apply (cases b; cases d)
         apply (auto simp: and_then_Inr_iff if_less_max split: if_splits)
      done
    done
  done

lemma array_loop_keeps:
  assumes ok: "engine_ok E"
    and run: "array_loop X E s vals t initial width count state i c = Inr (s1, vals1, c1)"
  shows "keeps s vals t s1 vals1"
proof -
  from array_loop_cases [OF run] obtain found i1 s0 s3 vals3 b d where
    tp: "try_parse_index X s i = Inr (found, i1, s0)"
    and m: "rec_member E (if found \<and> peek s0 = ASSIGN then next_token s0 else s0) vals
              (t\<lparr>offset := size_t (initial + i1 * width)\<rparr>) = Inr (s3, vals3)"
    and tl: "if b \<and> \<not> (\<not> d \<and> count \<noteq> 0 \<and> count \<le> max c (size_t (Suc i1)))
            then \<exists>s4. consume COMMA s3 = Inr s4
                    \<and> rec_array_loop E s4 vals3 (t\<lparr>offset := size_t (initial + i1 * width)\<rparr>)
                         initial width count state (size_t (Suc i1)) (max c (size_t (Suc i1)))
                       = Inr (s1, vals1, c1)
            else s1 = s3 \<and> vals1 = vals3 \<and> c1 = max c (size_t (Suc i1))"
    by blast
  let ?s2 = "if found \<and> peek s0 = ASSIGN then next_token s0 else s0"
  let ?t1 = "t\<lparr>offset := size_t (initial + i1 * width)\<rparr>"
  have sb: "same_block s ?s2"
    using same_block_try_parse_index [OF tp] by simp
  have k: "keeps s vals t s3 vals3"
    using keeps_pre [OF sb engine_ok_member [OF ok m]] by (auto intro: keeps_target)
  show ?thesis
  proof (cases "b \<and> \<not> (\<not> d \<and> count \<noteq> 0 \<and> count \<le> max c (size_t (Suc i1)))")
    case False
    with tl k show ?thesis by simp
  next
    case True
    with tl obtain s4 where cm: "consume COMMA s3 = Inr s4"
      and rec: "rec_array_loop E s4 vals3 ?t1 initial width count state (size_t (Suc i1)) (max c (size_t (Suc i1)))
                  = Inr (s1, vals1, c1)"
      by auto
    have "keeps s vals t s4 vals3"
      using keeps_post [OF k same_block_consume [OF cm]] .
    moreover have "keeps s4 vals3 ?t1 s1 vals1"
      using engine_ok_array_loop [OF ok rec] .
    ultimately show ?thesis
      by (rule keeps_trans) simp
  qed
qed

lemma initialize_array_cases:
  assumes "initialize_array X E s vals t state = Inr (s1, vals1)"
  shows "\<exists>s0 s3 vals3 c.
           (if \<not> has_init_value (blk s) then
             (if peek s = DOT \<or> peek s = LBRACE \<or> peek s = LBRACKET then Inr s
              else read_initializer_element X s (symbol t))
            else Inr s) = Inr s0
         \<and> (if has_init_value (blk s0)
                   \<and> is_char (type_next (vtype t))
                   \<and> is_identity (expr (blk s0))
                   \<and> is_array (etype (expr (blk s0)))
                   \<and> kind (l_var (expr (blk s0))) = DIRECT
                   \<and> symtype (symbol (l_var (expr (blk s0)))) = SYM_LITERAL
             then (case eval_assign_string s0 vals t (expr (blk s0)) of
                     (s2, vals2, target2) \<Rightarrow>
                        s3 = s2\<lparr>blk := (blk s2)\<lparr>has_init_value := False\<rparr>\<rparr>
                        \<and> vals3 = vals2 \<and> c = 0)
             else array_loop X E s0 vals (t\<lparr>vtype := type_next (vtype t)\<rparr>) (offset t)
                    (size_of (type_next (vtype t))) (type_array_len (vtype t)) state 0 0
                  = Inr (s3, vals3, c))
         \<and> vals1 = vals3
         \<and> (if size_of (type_handle s s3 (vtype t)) = 0
            then is_array (sym_type s3) \<and> size_of (sym_type s3) = 0
               \<and> s1 = s3\<lparr>sym_type := set_array_length (sym_type s3) c\<rparr>
            else s1 = s3)"
  using assms unfolding initialize_array_def Let_def
  apply (cases "is_array (vtype t)"; cases "kind t = DIRECT"; simp split del: if_split)
  apply (clarsimp simp: and_then_Inr_iff split del: if_split)
  subgoal for s0 s3 vals3 c
    apply (rule exI [of _ s3], rule exI [of _ c])
    apply (auto split: if_splits prod.splits)
    done
  done

lemma initialize_array_keeps:
  assumes ok: "engine_ok E"
    and run: "initialize_array X E s vals t state = Inr (s1, vals1)"
  shows "\<not> has_init_value (blk s1)
       \<and> (size_of (vtype t) \<noteq> 0 \<longrightarrow> sym_type s1 = sym_type s)
       \<and> (linkage (symbol t) = LINK_NONE \<and> pending_ok s \<and> no_call vals \<longrightarrow> no_call vals1)"
proof -
  from initialize_array_cases [OF run] obtain s0 s3 c where
    rd: "(if \<not> has_init_value (blk s) then
             (if peek s = DOT \<or> peek s = LBRACE \<or> peek s = LBRACKET then Inr s
              else read_initializer_element X s (symbol t))
            else Inr s) = Inr s0"
    and mid: "if has_init_value (blk s0)
                   \<and> is_char (type_next (vtype t))
                   \<and> is_identity (expr (blk s0))
                   \<and> is_array (etype (expr (blk s0)))
                   \<and> kind (l_var (expr (blk s0))) = DIRECT
                   \<and> symtype (symbol (l_var (expr (blk s0)))) = SYM_LITERAL
             then (case eval_assign_string s0 vals t (expr (blk s0)) of
                     (s2, vals2, target2) \<Rightarrow>
                        s3 = s2\<lparr>blk := (blk s2)\<lparr>has_init_value := False\<rparr>\<rparr>
                        \<and> vals1 = vals2 \<and> c = 0)
             else array_loop X E s0 vals (t\<lparr>vtype := type_next (vtype t)\<rparr>) (offset t)
                    (size_of (type_next (vtype t))) (type_array_len (vtype t)) state 0 0
                  = Inr (s3, vals1, c)"
    and fin: "if size_of (type_handle s s3 (vtype t)) = 0
            then is_array (sym_type s3) \<and> size_of (sym_type s3) = 0
               \<and> s1 = s3\<lparr>sym_type := set_array_length (sym_type s3) c\<rparr>
            else s1 = s3"
    by blast
  note fr = first_read_keeps [OF rd]
  have mid_k: "\<not> has_init_value (blk s3)
       \<and> (size_of (vtype t) \<noteq> 0 \<longrightarrow> sym_type s3 = sym_type s0)
       \<and> (linkage (symbol t) = LINK_NONE \<and> pending_ok s0 \<and> no_call vals \<longrightarrow> no_call vals1)"
  proof (cases "has_init_value (blk s0)
                   \<and> is_char (type_next (vtype t))
                   \<and> is_identity (expr (blk s0))
                   \<and> is_array (etype (expr (blk s0)))
                   \<and> kind (l_var (expr (blk s0))) = DIRECT
                   \<and> symtype (symbol (l_var (expr (blk s0)))) = SYM_LITERAL")
    case True
    with mid show ?thesis
      by (auto simp: eval_assign_string_def eval_assign_def no_call_def pending_ok_def
          split: if_splits)
  next
    case False
    with mid have "array_loop X E s0 vals (t\<lparr>vtype := type_next (vtype t)\<rparr>) (offset t)
                    (size_of (type_next (vtype t))) (type_array_len (vtype t)) state 0 0
                  = Inr (s3, vals1, c)"
      by simp
    from array_loop_keeps [OF ok this] show ?thesis
      by (simp add: keeps_def)
  qed
  have "size_of (vtype t) \<noteq> 0 \<Longrightarrow> s1 = s3"
    using fin mid_k fr by (auto simp: type_handle_def split: if_splits)
  moreover have "\<not> has_init_value (blk s1)"
    using fin mid_k by (auto split: if_splits)
  ultimately show ?thesis
    using mid_k fr by auto
qed

lemma close_brace_same_block:
  "consume RBRACE (if peek s1 = COMMA then next_token s1 else s1) = Inr s2 \<Longrightarrow> same_block s1 s2"
  by (auto dest!: same_block_consume split: if_splits)

lemma initialize_member_keeps:
  assumes ok: "engine_ok E"
    and run: "initialize_member X E s vals t = Inr (s1, vals1)"
  shows "keeps s vals t s1 vals1"
proof -
  from run have dir: "kind t = DIRECT"
    by (auto simp: initialize_member_def split: if_splits)
  consider (sou) "is_struct_or_union (vtype t)"
    | (arr) "\<not> is_struct_or_union (vtype t)" "is_array (vtype t)"
    | (scalar) "\<not> is_struct_or_union (vtype t)" "\<not> is_array (vtype t)"
    by blast
  then show ?thesis
  proof cases
    case sou
    show ?thesis
    proof (cases "\<not> has_init_value (blk s) \<and> peek s = LBRACE")
      case True
      with run dir sou obtain s0 where
        a: "initialize_struct_or_union X E (next_token s) vals t CURRENT = Inr (s0, vals1)"
        and b: "consume RBRACE (if peek s0 = COMMA then next_token s0 else s0) = Inr s1"
        by (auto simp: initialize_member_def and_then_Inr_iff)
      from keeps_post [OF initialize_struct_or_union_keeps [OF ok a] close_brace_same_block [OF b]]
      show ?thesis by (rule keeps_pre [rotated]) simp
    next
      case False
      with run dir sou have
        "initialize_struct_or_union X E s vals t DESIGNATOR = Inr (s1, vals1)"
        by (auto simp: initialize_member_def)
      from initialize_struct_or_union_keeps [OF ok this] show ?thesis .
    qed
  next
    case arr
    with run dir have nz: "size_of (vtype t) \<noteq> 0"
      by (auto simp: initialize_member_def split: if_splits)
    show ?thesis
    proof (cases "\<not> has_init_value (blk s) \<and> peek s = LBRACE")
      case True
      with run dir arr nz obtain s0 where
        a: "initialize_array X E (next_token s) vals t CURRENT = Inr (s0, vals1)"
        and b: "consume RBRACE (if peek s0 = COMMA then next_token s0 else s0) = Inr s1"
        by (auto simp: initialize_member_def and_then_Inr_iff)
      from initialize_array_keeps [OF ok a] nz have "keeps (next_token s) vals t s0 vals1"
        by (simp add: keeps_def)
      from keeps_post [OF this close_brace_same_block [OF b]]
      show ?thesis by (rule keeps_pre [rotated]) simp
    next
      case False
      with run dir arr nz have
        "initialize_array X E s vals t DESIGNATOR = Inr (s1, vals1)"
        by (auto simp: initialize_member_def)
      from initialize_array_keeps [OF ok this] nz show ?thesis
        by (simp add: keeps_def)
    qed
  next
    case scalar
    with run dir obtain s0 where
      rd: "(if \<not> has_init_value (blk s) then
             (if peek s = LBRACE then
                and_then (read_initializer_element X (next_token s) (symbol t))
                  (consume RBRACE)
              else read_initializer_element X s (symbol t))
           else Inr s) = Inr s0"
      and asg: "assign_initializer_element s0 vals t = Inr (s1, vals1)"
      by (auto simp: initialize_member_def and_then_Inr_iff)
    have "sym_type s0 = sym_type s
         \<and> (linkage (symbol t) = LINK_NONE \<and> pending_ok s \<longrightarrow> pending_ok s0)"
      using rd
      by (auto simp: pending_ok_def and_then_Inr_iff same_block_def next_token_def
          split: if_splits
          dest!: read_initializer_element_keeps same_block_consume)
    then show ?thesis
      using assign_initializer_element_keeps [OF asg] by (rule keeps_first_read)
  qed
qed

lemma engine_at_ok: "engine_ok (engine_at X n)"
proof (induction n)
  case 0
  show ?case by (simp add: engine_ok_def)
next
  case (Suc n)
  show ?case
    unfolding engine_ok_def rec_engine_at_Suc
  proof (intro conjI allI impI)
    show "keeps s vals target s1 vals1"
      if "initialize_member X (engine_at X n) s vals target = Inr (s1, vals1)"
      for s vals target s1 vals1
      using that by (rule initialize_member_keeps [OF Suc])
    show "keeps s init target s1 init1"
      if "union_loop X (engine_at X n) s init target filled ty state dn = Inr (s1, init1)"
        and "dn \<longrightarrow> \<not> has_init_value (blk s)"
      for s init target filled ty state dn s1 init1
      using that by (auto intro: union_loop_keeps [OF Suc])
    show "keeps s vals target s1 vals1"
      if "struct_loop X (engine_at X n) s vals target filled ty m i prev state = Inr (s1, vals1)"
      for s vals target filled ty m i prev state s1 vals1
      using that by (rule struct_loop_keeps [OF Suc])
    show "keeps s vals target s1 vals1"
      if "array_loop X (engine_at X n) s vals target initial width count state i c
            = Inr (s1, vals1, c1)"
      for s vals target initial width count state i c s1 vals1 c1
      using that by (rule array_loop_keeps [OF Suc])
  qed
qed

lemma initialize_object_keeps:
  "initialize_object n X s vals t = Inr (s1, vals1) \<Longrightarrow>
     \<not> has_init_value (blk s1)
     \<and> (linkage (symbol t) = LINK_NONE \<and> no_call vals \<longrightarrow> no_call vals1)"
proof (induction n arbitrary: s vals s1 vals1)
  case 0
  then show ?case by simp
next
  case (Suc n)
  note ok = engine_at_ok [of X n]
  from Suc.prems have dir: "kind t = DIRECT" and np: "\<not> has_init_value (blk s)"
    by (auto split: if_splits)
  then have pk: "pending_ok s" "pending_ok (next_token s)"
    by (simp_all add: pending_ok_def next_token_def)
  show ?case
  proof (cases "peek s = LBRACE")
    case True
    with Suc.prems dir np obtain s0 where
      a: "(if is_struct_or_union (vtype t)
           then initialize_struct_or_union X (engine_at X n) (next_token s) vals t CURRENT
           else if is_array (vtype t)
           then initialize_array X (engine_at X n) (next_token s) vals t CURRENT
           else initialize_object n X (next_token s) vals t) = Inr (s0, vals1)"
      and b: "consume RBRACE (if peek s0 = COMMA then next_token s0 else s0) = Inr s1"
      by (auto simp: and_then_Inr_iff)
    have "\<not> has_init_value (blk s0)
        \<and> (linkage (symbol t) = LINK_NONE \<and> no_call vals \<longrightarrow> no_call vals1)"
      using a pk initialize_struct_or_union_keeps [OF ok, of X "next_token s" vals t CURRENT s0 vals1]
        initialize_array_keeps [OF ok, of X "next_token s" vals t CURRENT s0 vals1]
        Suc.IH [of "next_token s" vals s0 vals1]
      by (auto simp: keeps_def split: if_splits)
    with close_brace_same_block [OF b] show ?thesis
      by (simp add: same_block_def)
  next
    case False
    show ?thesis
    proof (cases "is_array (vtype t)")
      case True
      with Suc.prems dir np False have
        "initialize_array X (engine_at X n) s vals t MEMBER = Inr (s1, vals1)"
        by simp
      from initialize_array_keeps [OF ok this] pk show ?thesis by simp
    next
      case nar: False
      with Suc.prems dir np False obtain s0 where
        rd: "read_initializer_element X s (symbol t) = Inr s0"
        and asg: "assign_initializer_element s0 vals t = Inr (s1, vals1)"
        by (auto simp: and_then_Inr_iff)
      from read_initializer_element_keeps [OF rd] assign_initializer_element_keeps [OF asg]
      show ?thesis by (auto simp: keeps_def pending_ok_def)
    qed
  qed
qed

lemma no_call_append [simp]: "no_call (xs @ ys) = (no_call xs \<and> no_call ys)"
  by (auto simp: no_call_def)

lemma no_call_zero_store [simp]:
  "no_call (eval_assign vs t (as_expr v)) = no_call vs"
  by (auto simp: no_call_def eval_assign_def as_expr_def)

lemma zero_initialize_no_call:
  "zero_initialize vs t = Inr vs1 \<Longrightarrow> no_call vs \<Longrightarrow> no_call vs1"
  "zero_elements vs t nbytes base i = Inr vs1 \<Longrightarrow> no_call vs \<Longrightarrow> no_call vs1"
proof (induction vs t and vs t nbytes base i arbitrary: vs1 and vs1
    rule: zero_initialize_zero_elements.induct)
  case (1 vs t)
  from "1.prems" show ?case
    apply (subst (asm) zero_initialize.simps)
    apply (auto split: if_splits ctype.splits intro: "1.IH")
    done
next
  case (2 vs t nbytes base i)
  from "2.prems" show ?case
    apply (subst (asm) zero_elements.simps)
    apply (auto split: if_splits sum.splits intro: "2.IH")
    done
qed

subsection \<open>A larger bound gives the same result\<close>

text \<open>
  A result reached within a bound is reached, unchanged, within every larger bound: the
  bound only decides whether the walk is cut short with \<open>OutOfFuel\<close>.
\<close>

lemma and_then_mono:
  assumes "and_then a f = Inr r" and "\<And>x. a = Inr x \<Longrightarrow> f x = Inr r \<Longrightarrow> g x = Inr r"
  shows "and_then a g = Inr r"
  using assms by (cases a) auto

lemma and_then_mono2:
  assumes "and_then a f = Inr r" and "\<And>x. a = Inr x \<Longrightarrow> b = Inr x"
    and "\<And>x. a = Inr x \<Longrightarrow> f x = Inr r \<Longrightarrow> g x = Inr r"
  shows "and_then b g = Inr r"
  using assms by (cases a) auto

lemma engine_le_member:
  "engine_le E E' \<Longrightarrow> rec_member E s vals target = Inr r \<Longrightarrow> rec_member E' s vals target = Inr r"
  by (simp add: engine_le_def del: split_paired_All)

lemma engine_le_union_loop:
  "engine_le E E' \<Longrightarrow> rec_union_loop E s init target filled ty state dn = Inr r
   \<Longrightarrow> rec_union_loop E' s init target filled ty state dn = Inr r"
  by (simp add: engine_le_def del: split_paired_All)

lemma engine_le_struct_loop:
  "engine_le E E' \<Longrightarrow> rec_struct_loop E s vals target filled ty m i prev state = Inr r
   \<Longrightarrow> rec_struct_loop E' s vals target filled ty m i prev state = Inr r"
  by (simp add: engine_le_def del: split_paired_All)

lemma engine_le_array_loop:
  "engine_le E E' \<Longrightarrow> rec_array_loop E s vals target initial width count state i c = Inr r
   \<Longrightarrow> rec_array_loop E' s vals target initial width count state i c = Inr r"
  by (simp add: engine_le_def del: split_paired_All)

lemmas engine_le_rec = engine_le_member engine_le_union_loop engine_le_struct_loop
  engine_le_array_loop

lemma union_loop_mono:
  assumes le: "engine_le E E'"
    and run: "union_loop X E s init target filled ty state dn = Inr r"
  shows "union_loop X E' s init target filled ty state dn = Inr r"
  using run unfolding union_loop_def
  by (auto elim!: and_then_mono2 simp: engine_le_rec [OF le]
        split: option.splits prod.splits bool.splits)

lemma struct_loop_mono:
  assumes le: "engine_le E E'"
    and run: "struct_loop X E s vals target filled ty m i prev state = Inr r"
  shows "struct_loop X E' s vals target filled ty m i prev state = Inr r"
  using run unfolding struct_loop_def Let_def
  by (auto elim!: and_then_mono2 simp: engine_le_rec [OF le]
        split: option.splits prod.splits bool.splits if_splits)

lemma array_loop_mono:
  assumes le: "engine_le E E'"
    and run: "array_loop X E s vals target initial width count state i c = Inr r"
  shows "array_loop X E' s vals target initial width count state i c = Inr r"
  using run unfolding array_loop_def Let_def
  by (auto elim!: and_then_mono2 simp: engine_le_rec [OF le]
        split: option.splits prod.splits bool.splits if_splits)

lemma initialize_union_mono:
  assumes le: "engine_le E E'"
    and run: "initialize_union X E s vals target state = Inr r"
  shows "initialize_union X E' s vals target state = Inr r"
  using run unfolding initialize_union_def
  by (auto elim!: and_then_mono2 simp: union_loop_mono [OF le] split: if_splits)

lemma initialize_struct_mono:
  assumes le: "engine_le E E'"
    and run: "initialize_struct X E s vals target state = Inr r"
  shows "initialize_struct X E' s vals target state = Inr r"
  using run unfolding initialize_struct_def
  by (auto simp: struct_loop_mono [OF le] split: if_splits)

lemma initialize_struct_or_union_mono:
  assumes le: "engine_le E E'"
    and run: "initialize_struct_or_union X E s vals target state = Inr r"
  shows "initialize_struct_or_union X E' s vals target state = Inr r"
  using run unfolding initialize_struct_or_union_def
  by (auto elim!: and_then_mono2
        simp: initialize_union_mono [OF le] initialize_struct_mono [OF le] split: if_splits)

lemma initialize_array_mono:
  assumes le: "engine_le E E'"
    and run: "initialize_array X E s vals target state = Inr r"
  shows "initialize_array X E' s vals target state = Inr r"
  using run unfolding initialize_array_def Let_def
  by (auto elim!: and_then_mono2 simp: array_loop_mono [OF le] split: if_splits)

lemma initialize_member_mono:
  assumes le: "engine_le E E'"
    and run: "initialize_member X E s vals target = Inr r"
  shows "initialize_member X E' s vals target = Inr r"
  using run unfolding initialize_member_def
  by (auto elim!: and_then_mono2
        simp: initialize_struct_or_union_mono [OF le] initialize_array_mono [OF le]
        split: if_splits)

lemma engine_at_Suc_le: "engine_le (engine_at X n) (engine_at X (Suc n))"
proof (induction n)
  case 0
  show ?case
    by (simp add: engine_le_def)
next
  case (Suc n)
  show ?case
    unfolding engine_le_def
    by (simp add: initialize_member_mono [OF Suc] union_loop_mono [OF Suc]
          struct_loop_mono [OF Suc] array_loop_mono [OF Suc] del: split_paired_All)
qed

lemma engine_le_refl: "engine_le E E"
  by (simp add: engine_le_def)

lemma engine_le_trans: "engine_le E F \<Longrightarrow> engine_le F G \<Longrightarrow> engine_le E G"
  by (simp add: engine_le_def del: split_paired_All)

lemma engine_at_mono: "n \<le> m \<Longrightarrow> engine_le (engine_at X n) (engine_at X m)"
proof (induction m)
  case 0
  then show ?case
    by (simp add: engine_le_refl)
next
  case (Suc m)
  show ?case
  proof (cases "n = Suc m")
    case True
    then show ?thesis
      by (simp add: engine_le_refl)
  next
    case False
    with Suc have "engine_le (engine_at X n) (engine_at X m)"
      by simp
    then show ?thesis
      using engine_at_Suc_le by (rule engine_le_trans)
  qed
qed

lemma initialize_object_Suc:
  "initialize_object n X s vals target = Inr r
   \<Longrightarrow> initialize_object (Suc n) X s vals target = Inr r"
proof (induction n arbitrary: s r)
  case 0
  then show ?case
    by simp
next
  case (Suc n)
  note le = engine_at_Suc_le [of X n]
  from Suc.prems show ?case
    apply (subst (asm) initialize_object.simps(2))
    apply (subst initialize_object.simps(2))
    apply (auto elim!: and_then_mono2 intro: Suc.IH
          simp: initialize_struct_or_union_mono [OF le] initialize_array_mono [OF le]
          simp del: initialize_object.simps split: if_splits)
    done
qed

lemma initialize_object_mono:
  assumes "n \<le> m" and "initialize_object n X s vals target = Inr r"
  shows "initialize_object m X s vals target = Inr r"
  using assms
proof (induction m)
  case 0
  then show ?case
    by simp
next
  case (Suc m)
  show ?case
  proof (cases "n = Suc m")
    case True
    with Suc.prems show ?thesis
      by simp
  next
    case False
    with Suc have "initialize_object m X s vals target = Inr r"
      by simp
    then show ?thesis
      by (rule initialize_object_Suc)
  qed
qed

subsection \<open>Post-processing adds no call\<close>

lemma stores_from_no_call: "stores_from t off r ss \<Longrightarrow> no_call ss"
  by (induction ss arbitrary: off r) (auto simp: no_call_def zero_store_def as_expr_def)

lemma zero_bytes_loop_not_direct:
  "kind t \<noteq> DIRECT \<Longrightarrow> n \<noteq> 0 \<Longrightarrow> \<exists>e. zero_bytes_loop vs t n = Inl e"
  by (subst zero_bytes_loop.simps) (simp add: Let_def zero_initialize.simps)

lemma zero_bytes_loop_no_call:
  assumes "zero_bytes_loop vs t n = Inr vs1" and "no_call vs"
  shows "no_call vs1"
proof (cases "kind t = DIRECT")
  case True
  from zero_bytes_loop_stores [OF True, of vs n] assms show ?thesis
    by (auto dest: stores_from_no_call)
next
  case False
  show ?thesis
  proof (cases "n = 0")
    case True
    with assms show ?thesis by (simp add: zero_bytes_loop.simps)
  next
    case nz: False
    from zero_bytes_loop_not_direct [OF False nz, of vs] assms(1) show ?thesis
      by simp
  qed
qed

lemma zero_initialize_bytes_no_call:
  "zero_initialize_bytes vs t n = Inr vs1 \<Longrightarrow> no_call vs \<Longrightarrow> no_call vs1"
  by (auto simp: zero_initialize_bytes_def dest: zero_bytes_loop_no_call)

lemma initialize_padding_no_call:
  "initialize_padding vs t f = Inr vs1 \<Longrightarrow> no_call vs \<Longrightarrow> no_call vs1"
  by (auto simp: initialize_padding_def and_then_Inr_iff Let_def split: if_splits
      dest: zero_initialize_no_call(1) zero_initialize_bytes_no_call)

lemma initialize_trailing_padding_no_call:
  "initialize_trailing_padding vs t n b = Inr vs1 \<Longrightarrow> no_call vs \<Longrightarrow> no_call vs1"
  by (auto simp: initialize_trailing_padding_def and_then_Inr_iff split: if_splits
      dest: zero_initialize_no_call(1) zero_initialize_bytes_no_call)

lemma postprocess_loop_no_call:
  "postprocess_loop block t b first vs = Inr (block1, t1, b1) \<Longrightarrow> no_call block
   \<Longrightarrow> no_call block1"
proof (induction vs arbitrary: block t b first)
  case Nil
  then show ?case by simp
next
  case (Cons stm rest)
  let ?t = "if first then t\<lparr>vtype := vtype (st_t stm)\<rparr> else t"
  from Cons.prems(1) have nc: "op (st_expr stm) \<noteq> IR_OP_CALL"
    by (auto simp: Let_def split: if_splits)
  from Cons.prems(1) have "\<exists>block0 tx bx.
      initialize_padding block ?t (st_t stm) = Inr block0
      \<and> postprocess_loop (block0 @ [stm]) tx bx False rest = Inr (block1, t1, b1)"
    by (simp add: Let_def and_then_Inr_iff split: if_splits) blast+
  then obtain block0 tx bx where
    pad: "initialize_padding block ?t (st_t stm) = Inr block0"
    and rec: "postprocess_loop (block0 @ [stm]) tx bx False rest = Inr (block1, t1, b1)"
    by blast
  have "no_call (block0 @ [stm])"
    using initialize_padding_no_call [OF pad Cons.prems(2)] nc by (simp add: no_call_def)
  with rec show ?case by (rule Cons.IH)
qed

lemma postprocess_no_call:
  assumes "postprocess_object_initialization vals t = Inr out"
  shows "no_call out"
proof -
  from assms obtain block t1 b1 where
    lp: "postprocess_loop [] t 0 True (projr (sort_and_trim vals)) = Inr (block, t1, b1)"
    and tr: "initialize_trailing_padding block t1 (size_of (vtype t)) b1 = Inr out"
    by (auto simp: postprocess_object_initialization_def and_then_Inr_iff split: if_splits)
  have "no_call block"
    using postprocess_loop_no_call [OF lp] by (simp add: no_call_def)
  with tr show ?thesis by (rule initialize_trailing_padding_no_call)
qed

subsection \<open>Nothing is left pending\<close>

text \<open>
  C10. Whenever \<open>initializer\<close> answers, the block it returns has no pending
  expression. The flag is already cleared where the final assertion of the driver
  reads it: \<open>initialize_object\<close> never answers with an expression pending (every
  walk of the engine ends after an assignment has consumed the expression read last),
  and the single-scalar path clears the flag itself.
\<close>

theorem initializer_no_pending:
  "(initializer n X s symb = Inr s1 \<longrightarrow> \<not> has_init_value (blk s1))
   \<and> (initialize_object n X s vals t = Inr (s2, vals2) \<longrightarrow> \<not> has_init_value (blk s2))"
proof (intro conjI impI)
  assume "initialize_object n X s vals t = Inr (s2, vals2)"
  from initialize_object_keeps [OF this] show "\<not> has_init_value (blk s2)"
    by simp
next
  assume run: "initializer n X s symb = Inr s1"
  show "\<not> has_init_value (blk s1)"
  proof (cases "peek s = LBRACE \<or> is_array (sym_type s)")
    case True
    with run obtain s0 vals0 out where
      ob: "initialize_object n X s [] (var_direct s symb) = Inr (s0, vals0)"
      and s1: "s1 = s0\<lparr>blk := (blk s0)\<lparr>code := code (blk s0) @ out\<rparr>\<rparr>"
      by (auto simp: initializer_def Let_def and_then_Inr_iff split: if_splits)
    from initialize_object_keeps [OF ob] s1 show ?thesis
      by simp
  next
    case False
    with run show ?thesis
      by (auto simp: initializer_def Let_def and_then_Inr_iff split: if_splits)
  qed
qed

theorem initializer_no_pending_witness:
  "\<exists>s1. initializer 6 X0 (start (T_ARRAY T_INT 3) tokens_123) sym_x = Inr s1
        \<and> \<not> has_init_value (blk s1)"
proof -
  have "\<exists>s1. initializer 6 X0 (start (T_ARRAY T_INT 3) tokens_123) sym_x = Inr s1"
    apply (simp add: eval_nat_numeral initializer_def tokens_123_def)
    apply (simp add: engine_defs token_defs post_defs example_defs)
    done
  then obtain s1 where r: "initializer 6 X0 (start (T_ARRAY T_INT 3) tokens_123) sym_x = Inr s1" ..
  with initializer_no_pending [of 6 X0 "start (T_ARRAY T_INT 3) tokens_123" sym_x s1]
  show ?thesis by blast
qed

subsection \<open>Calls are lifted into temporaries\<close>

text \<open>
  C7. For a symbol without linkage, an element expression that is a call (and not of
  type void) is materialized: \<open>read_initializer_element\<close> creates a temporary, appends
  the assignment of the call to the temporary to the block, and leaves the reference
  to the temporary as the pending expression. And for a target without linkage the
  values buffer that \<open>initialize_object\<close> fills holds no assignment of a call, and
  neither does the buffer the post-processor makes of it.
\<close>

theorem calls_materialized:
  "(linkage symb = LINK_NONE \<and> \<not> has_init_value (blk s)
      \<and> parse_assignment_expression X s = Inr s1
      \<and> \<not> is_void (etype (expr (blk s1))) \<and> op (expr (blk s1)) = IR_OP_CALL
    \<longrightarrow> (let tmp = fst (create_var s1 (etype (expr (blk s1))))
         in read_initializer_element X s symb
              = Inr (s1\<lparr>ntemps := Suc (ntemps s1),
                        blk := (blk s1)
                          \<lparr>code := code (blk s1)
                                   @ [\<lparr>st = IR_ASSIGN, st_t = tmp, st_expr = expr (blk s1)\<rparr>],
                           expr := as_expr tmp, has_init_value := True\<rparr>\<rparr>)))
   \<and> (linkage (symbol t) = LINK_NONE \<and> initialize_object n X s [] t = Inr (s2, vals)
    \<longrightarrow> no_call vals
        \<and> (\<forall>t1 out. postprocess_object_initialization vals t1 = Inr out \<longrightarrow> no_call out))"
proof (rule conjI; rule impI)
  assume a: "linkage symb = LINK_NONE \<and> \<not> has_init_value (blk s)
      \<and> parse_assignment_expression X s = Inr s1
      \<and> \<not> is_void (etype (expr (blk s1))) \<and> op (expr (blk s1)) = IR_OP_CALL"
  then show "let tmp = fst (create_var s1 (etype (expr (blk s1))))
         in read_initializer_element X s symb
              = Inr (s1\<lparr>ntemps := Suc (ntemps s1),
                        blk := (blk s1)
                          \<lparr>code := code (blk s1)
                                   @ [\<lparr>st = IR_ASSIGN, st_t = tmp, st_expr = expr (blk s1)\<rparr>],
                           expr := as_expr tmp, has_init_value := True\<rparr>\<rparr>)"
    by (simp add: read_initializer_element_def create_var_def eval_assign_def Let_def)
next
  assume b: "linkage (symbol t) = LINK_NONE \<and> initialize_object n X s [] t = Inr (s2, vals)"
  then have "no_call vals"
    using initialize_object_keeps [of n X s "[]" t s2 vals] by (simp add: no_call_def)
  then show "no_call vals
        \<and> (\<forall>t1 out. postprocess_object_initialization vals t1 = Inr out \<longrightarrow> no_call out)"
    using postprocess_no_call by blast
qed

theorem calls_materialized_witness:
  "(\<exists>s1. read_initializer_element X0 (start T_INT [IDENTIFIER ''f'']) sym_x = Inr s1
         \<and> code (blk s1) = [\<lparr>st = IR_ASSIGN, st_t = fst (create_var (start T_INT []) T_INT),
                              st_expr = call_expr ''f''\<rparr>]
         \<and> expr (blk s1) = as_expr (fst (create_var (start T_INT []) T_INT)))
   \<and> (\<exists>s2 vals out.
        initialize_object 6 X0 (start (T_ARRAY T_INT 2) tokens_f3) []
          (direct_target (T_ARRAY T_INT 2)) = Inr (s2, vals)
        \<and> postprocess_object_initialization vals (direct_target (T_ARRAY T_INT 2)) = Inr out
        \<and> no_call vals \<and> no_call out)"
proof -
  let ?ra = "start T_INT [IDENTIFIER ''f'']"
  let ?rb = "(start T_INT [])\<lparr>blk := empty_block\<lparr>expr := call_expr ''f''\<rparr>\<rparr>"
  let ?s = "start (T_ARRAY T_INT 2) tokens_f3" and ?t = "direct_target (T_ARRAY T_INT 2)"
  have p: "parse_assignment_expression X0 ?ra = Inr ?rb"
    by code_simp
  have h: "linkage sym_x = LINK_NONE" "\<not> has_init_value (blk ?ra)"
    "\<not> is_void (etype (expr (blk ?rb)))" "op (expr (blk ?rb)) = IR_OP_CALL"
    by code_simp+
  have first: "\<exists>s1. read_initializer_element X0 ?ra sym_x = Inr s1
         \<and> code (blk s1) = [\<lparr>st = IR_ASSIGN, st_t = fst (create_var (start T_INT []) T_INT),
                              st_expr = call_expr ''f''\<rparr>]
         \<and> expr (blk s1) = as_expr (fst (create_var (start T_INT []) T_INT))"
    using calls_materialized [where symb = sym_x and s = ?ra and X = X0 and ?s1.0 = ?rb,
        THEN conjunct1] p h
    by (simp add: Let_def start_def empty_block_def create_var_def call_expr_def)
  have "case initialize_object 6 X0 ?s [] ?t of
          Inr (s2, vals) \<Rightarrow>
            (case postprocess_object_initialization vals ?t of
               Inr out \<Rightarrow> True | Inl e \<Rightarrow> False)
        | Inl e \<Rightarrow> False"
    by code_simp
  then have "\<exists>s2 vals out. initialize_object 6 X0 ?s [] ?t = Inr (s2, vals)
      \<and> postprocess_object_initialization vals ?t = Inr out"
    by (cases "initialize_object 6 X0 ?s [] ?t";
        cases "postprocess_object_initialization (snd (projr (initialize_object 6 X0 ?s [] ?t))) ?t")
       auto
  then obtain s2 vals out where
    r: "initialize_object 6 X0 ?s [] ?t = Inr (s2, vals)"
    and po: "postprocess_object_initialization vals ?t = Inr out"
    by blast
  have l: "linkage (symbol ?t) = LINK_NONE"
    by code_simp
  from calls_materialized [where t = ?t and n = 6 and X = X0 and s = ?s and ?s2.0 = s2
      and vals = vals, THEN conjunct2] l r po
  have "no_call vals \<and> no_call out"
    by blast
  with r po first show ?thesis
    by blast
qed

subsection \<open>Sorting and padding: two defects\<close>

text \<open>
  C4 (the code departs from the claim). The sort of \<open>sort_and_trim\<close> compares the
  offsets only. For \<open>struct { int a:3, b:5; } x = { .b = 1, .a = 2 }\<close> the engine
  fills the values buffer with the write to b and then the write to a, and
  \<open>sort_and_trim\<close> leaves them in that order although the key of a is the smaller.
  With \<open>{ .a = 1, .b = 2, .a = 3 }\<close> both writes to a survive: the duplicate test
  only looks at the element below the one inserted.
\<close>

theorem sort_and_trim_ignores_field_offset:
  "initialize_object 3 X0
     (start struct_ab [LBRACE, DOT, IDENTIFIER ''b'', ASSIGN, OTHER 1, COMMA,
                       DOT, IDENTIFIER ''a'', ASSIGN, OTHER 2, RBRACE])
     [] (direct_target struct_ab)
   = Inr ((start struct_ab [])\<lparr>blk := empty_block\<lparr>expr := as_expr (imm_int 2)\<rparr>\<rparr>,
          [assign_member struct_ab 1 1, assign_member struct_ab 0 2])
   \<and> sort_and_trim [assign_member struct_ab 1 1, assign_member struct_ab 0 2]
       = Inr [assign_member struct_ab 1 1, assign_member struct_ab 0 2]
   \<and> key_less (assign_member struct_ab 0 2) (assign_member struct_ab 1 1)
   \<and> sort_and_trim
         [assign_member struct_ab 0 1, assign_member struct_ab 1 2, assign_member struct_ab 0 3]
       = Inr [assign_member struct_ab 0 1, assign_member struct_ab 1 2,
              assign_member struct_ab 0 3]"
proof -
  have "initialize_object 3 X0
     (start struct_ab [LBRACE, DOT, IDENTIFIER ''b'', ASSIGN, OTHER 1, COMMA,
                       DOT, IDENTIFIER ''a'', ASSIGN, OTHER 2, RBRACE])
     [] (direct_target struct_ab)
   = Inr ((start struct_ab [])\<lparr>blk := empty_block\<lparr>expr := as_expr (imm_int 2)\<rparr>\<rparr>,
          [assign_member struct_ab 1 1, assign_member struct_ab 0 2])"
    apply (simp add: numeral_3_eq_3)
    apply (simp add: engine_defs token_defs example_defs struct_ab_def)
    apply (simp add: assign_member_def engine_defs token_defs example_defs struct_ab_def)
    done
  moreover have "sort_and_trim [assign_member struct_ab 1 1, assign_member struct_ab 0 2]
       = Inr [assign_member struct_ab 1 1, assign_member struct_ab 0 2]
     \<and> key_less (assign_member struct_ab 0 2) (assign_member struct_ab 1 1)"
    by (simp add: sort_and_trim_def sort_loop.simps assign_member_def struct_ab_def
          access_member_def key_less_def)
  moreover have "sort_and_trim
         [assign_member struct_ab 0 1, assign_member struct_ab 1 2, assign_member struct_ab 0 3]
       = Inr [assign_member struct_ab 0 1, assign_member struct_ab 1 2,
              assign_member struct_ab 0 3]"
    by (simp add: sort_and_trim_def sort_loop.simps assign_member_def struct_ab_def
          access_member_def)
  ultimately show ?thesis
    by simp
qed

text \<open>
  C1 (the code departs from the claim). For
  \<open>struct { int x; int a:3, b:5; } s = { .b = 1 }\<close> the engine is accepted by every
  assertion, the validation of the finished block included, and the block it
  returns zeroes the bytes of x, writes b, and zeroes the bits after b: bits 0 to 2
  of the unit at offset 4 (the member a) are written by no assignment, so the block
  does not cover the 8 bytes of the object. \<open>initialize_padding\<close> fills the bytes up
  to the offset of the next field and then stops, without the bits below the field.
\<close>

theorem postprocess_leaves_bits_unwritten:
  "(\<exists>s1. initializer 3 X0
            (start struct_xab [LBRACE, DOT, IDENTIFIER ''b'', ASSIGN, OTHER 1, RBRACE]) sym_x
          = Inr s1
        \<and> code (blk s1)
            = [zero_store ((direct_target struct_xab)\<lparr>vtype := T_INT\<rparr>),
               assign_member struct_xab 2 1,
               zero_store ((direct_target struct_xab)
                 \<lparr>vtype := T_INT, offset := 4, field_offset := 8, field_width := 24\<rparr>)])
   \<and> concat (map written_bits
         [zero_store ((direct_target struct_xab)\<lparr>vtype := T_INT\<rparr>),
          assign_member struct_xab 2 1,
          zero_store ((direct_target struct_xab)
            \<lparr>vtype := T_INT, offset := 4, field_offset := 8, field_width := 24\<rparr>)])
       = [0..<32] @ [35..<64]
   \<and> size_of struct_xab = 8"
proof -
  have "\<exists>s1. initializer 3 X0
            (start struct_xab [LBRACE, DOT, IDENTIFIER ''b'', ASSIGN, OTHER 1, RBRACE]) sym_x
          = Inr s1
        \<and> code (blk s1)
            = [zero_store ((direct_target struct_xab)\<lparr>vtype := T_INT\<rparr>),
               assign_member struct_xab 2 1,
               zero_store ((direct_target struct_xab)
                 \<lparr>vtype := T_INT, offset := 4, field_offset := 8, field_width := 24\<rparr>)]"
    apply (simp add: numeral_3_eq_3 initializer_def)
    apply (simp add: engine_defs token_defs post_defs assign_member_def struct_xab_def
        example_defs zero_store_def)
    done
  moreover have "concat (map written_bits
         [zero_store ((direct_target struct_xab)\<lparr>vtype := T_INT\<rparr>),
          assign_member struct_xab 2 1,
          zero_store ((direct_target struct_xab)
            \<lparr>vtype := T_INT, offset := 4, field_offset := 8, field_width := 24\<rparr>)])
       = [0..<32] @ [35..<64]"
    by (simp add: written_bits_def assign_member_def struct_xab_def access_member_def
          size_t_def example_defs zero_store_def del: upt_Suc upt.simps)
  moreover have "size_of struct_xab = 8"
    by (simp add: struct_xab_def)
  ultimately show ?thesis
    by blast
qed

subsection \<open>The union walk: the last designated member wins\<close>

lemma rec_union_loop_trace:
  "rec_union_loop (engine_at X k) s init t filled ty state dn = Inr (s1, init1) \<Longrightarrow>
   (let tr = union_trace k X s t filled ty state dn
    in (tr = [] \<longrightarrow> init1 = init \<and> dn)
     \<and> (tr \<noteq> [] \<longrightarrow> init1 = produced (last tr))
     \<and> (\<forall>it \<in> set (tl tr). designated it)
     \<and> (dn \<longrightarrow> (\<forall>it \<in> set tr. designated it)))"
proof (induction k arbitrary: s init t dn)
  case 0
  then show ?case by simp
next
  case (Suc n)
  define sel where "sel =
     (if peek s = DOT then
        and_then (consume_identifier (next_token s)) (\<lambda>(name, s1).
        and_then (get_named_member ty name) (\<lambda>(m, idx).
          Inr (Some (access_member t m filled,
                     if peek s1 = ASSIGN then next_token s1 else s1))))
      else if \<not> dn then
        and_then (get_member ty 0) (\<lambda>m. Inr (Some (access_member t m filled, s)))
      else Inr None)"
  let ?E = "engine_at X n"
  have loop: "and_then sel (\<lambda>r. case r of
          None \<Rightarrow> Inr (s, init)
        | Some (target1, s2) \<Rightarrow>
            and_then (rec_member ?E s2 [] target1) (\<lambda>(s3, init3).
              case next_element state s3 of
                (True, s4) \<Rightarrow> rec_union_loop ?E s4 init3 target1 filled ty state True
              | (False, s4) \<Rightarrow> Inr (s4, init3))) = Inr (s1, init1)"
    using Suc.prems unfolding rec_engine_at_Suc union_loop_def sel_def .
  have trace: "union_trace (Suc n) X s t filled ty state dn =
     (case sel of
        Inr (Some (target1, s2)) \<Rightarrow>
          (case rec_member ?E s2 [] target1 of
             Inr (s3, init3) \<Rightarrow>
               \<lparr>designated = (peek s = DOT), member_target = target1, produced = init3\<rparr>
               # (case next_element state s3 of
                    (True, s4) \<Rightarrow> union_trace n X s4 target1 filled ty state True
                  | (False, s4) \<Rightarrow> [])
           | Inl e \<Rightarrow> [])
      | _ \<Rightarrow> [])"
    unfolding union_trace.simps sel_def ..
  from loop obtain r where sel: "sel = Inr r"
    unfolding and_then_Inr_iff by blast
  show ?case
  proof (cases r)
    case None
    have "dn"
    proof (rule ccontr)
      assume "\<not> dn"
      then have "sel \<noteq> Inr None"
        unfolding sel_def by (auto simp: and_then_Inr_iff split: prod.splits)
      with sel None show False by simp
    qed
    with loop sel None trace show ?thesis
      by simp
  next
    case (Some p)
    obtain target1 s2 where p: "p = (target1, s2)" by (cases p)
    have des: "dn \<Longrightarrow> peek s = DOT"
      using sel Some unfolding sel_def by (auto split: if_splits)
    from loop sel Some p obtain s3 init3 where
      m: "rec_member ?E s2 [] target1 = Inr (s3, init3)"
      and tl: "(case next_element state s3 of
                (True, s4) \<Rightarrow> rec_union_loop ?E s4 init3 target1 filled ty state True
              | (False, s4) \<Rightarrow> Inr (s4, init3)) = Inr (s1, init1)"
      by (auto simp: and_then_Inr_iff)
    obtain b s4 where ne: "next_element state s3 = (b, s4)"
      by (cases "next_element state s3")
    define rest where "rest = (if b then union_trace n X s4 target1 filled ty state True else [])"
    have tr: "union_trace (Suc n) X s t filled ty state dn =
        \<lparr>designated = (peek s = DOT), member_target = target1, produced = init3\<rparr> # rest"
      unfolding trace using sel Some p m ne by (cases b) (simp_all add: rest_def)
    have rest_ok: "(rest = [] \<longrightarrow> init1 = init3)
        \<and> (rest \<noteq> [] \<longrightarrow> init1 = produced (last rest))
        \<and> (\<forall>it \<in> set rest. designated it)"
    proof (cases b)
      case False
      with tl ne show ?thesis by (simp add: rest_def)
    next
      case True
      with tl ne have "rec_union_loop ?E s4 init3 target1 filled ty state True = Inr (s1, init1)"
        by simp
      from Suc.IH [OF this] True show ?thesis
        by (simp add: rest_def Let_def)
    qed
    show ?thesis
      unfolding tr Let_def using rest_ok des by auto
  qed
qed

text \<open>
  C5. Whenever \<open>initialize_union\<close> answers, the walk has made at least one
  iteration, and what is appended to the caller's values buffer is exactly what the
  initializer of the member of the last iteration produced: the assignments of all
  earlier iterations are discarded. Only the first iteration can be positional, so
  when a designator appears anywhere in the walk, the last iteration is a designated
  one: the appended assignments are those of the last designated member.
\<close>

theorem union_last_designated_wins:
  assumes "initialize_union X (engine_at X n) s vals t state = Inr (s1, vals1)"
  shows "let tr = union_trace (Suc n) X s t (offset t) (vtype t) state False
         in tr \<noteq> [] \<and> vals1 = vals @ produced (last tr)
            \<and> ((\<exists>it \<in> set tr. designated it) \<longrightarrow> designated (last tr))"
proof -
  from assms obtain init where
    lp: "rec_union_loop (engine_at X (Suc n)) s [] t (offset t) (vtype t) state False
           = Inr (s1, init)"
    and v: "vals1 = vals @ init"
    by (auto simp: initialize_union_def and_then_Inr_iff split: if_splits)
  define tr where "tr = union_trace (Suc n) X s t (offset t) (vtype t) state False"
  from rec_union_loop_trace [OF lp] have
    ne: "tr \<noteq> []" and pr: "init = produced (last tr)"
    and tl: "\<forall>it \<in> set (tl tr). designated it"
    unfolding tr_def [symmetric] Let_def by auto
  have "designated (last tr)" if "\<exists>it \<in> set tr. designated it"
  proof (cases "tl tr = []")
    case True
    with ne have "tr = [last tr]"
      by (cases tr) auto
    with that show ?thesis
      by (metis empty_iff empty_set set_ConsD)
  next
    case False
    with ne have "last tr \<in> set (tl tr)"
      by (cases tr) auto
    with tl show ?thesis by blast
  qed
  with ne pr v show ?thesis
    unfolding tr_def [symmetric] Let_def by blast
qed

theorem union_last_designated_wins_witness:
  "\<exists>s1 vals1.
      initialize_union X0 (engine_at X0 6) (start union_pq tokens_pq) []
        (direct_target union_pq) CURRENT = Inr (s1, vals1)
      \<and> map designated
           (union_trace 7 X0 (start union_pq tokens_pq) (direct_target union_pq) 0 union_pq
              CURRENT False) = [False, True]
      \<and> map produced
           (union_trace 7 X0 (start union_pq tokens_pq) (direct_target union_pq) 0 union_pq
              CURRENT False)
         = [[\<lparr>st = IR_ASSIGN,
               st_t = access_member (access_member (direct_target union_pq)
                        (members union_pq ! 0) 0\<lparr>lvalue := True\<rparr>) (members struct_xy ! 0) 0,
               st_expr = as_expr (imm_int 1)\<rparr>,
              \<lparr>st = IR_ASSIGN,
               st_t = access_member (access_member (direct_target union_pq)
                        (members union_pq ! 0) 0\<lparr>lvalue := True\<rparr>) (members struct_xy ! 1) 0,
               st_expr = as_expr (imm_int 2)\<rparr>],
            [assign_member union_pq 1 3]]
      \<and> vals1 = [assign_member union_pq 1 3]"
proof -
  let ?s = "start union_pq tokens_pq" and ?t = "direct_target union_pq"
  let ?tr = "union_trace 7 X0 ?s ?t 0 union_pq CURRENT False"
  have "case initialize_union X0 (engine_at X0 6) ?s [] ?t CURRENT of
          Inr r \<Rightarrow> True | Inl e \<Rightarrow> False"
    by code_simp
  then obtain s1 vals1 where
    run: "initialize_union X0 (engine_at X0 6) ?s [] ?t CURRENT = Inr (s1, vals1)"
    by (cases "initialize_union X0 (engine_at X0 6) ?s [] ?t CURRENT") auto
  have d: "map designated ?tr = [False, True]"
    by code_simp
  have p: "map produced ?tr
         = [[\<lparr>st = IR_ASSIGN,
               st_t = access_member (access_member (direct_target union_pq)
                        (members union_pq ! 0) 0\<lparr>lvalue := True\<rparr>) (members struct_xy ! 0) 0,
               st_expr = as_expr (imm_int 1)\<rparr>,
              \<lparr>st = IR_ASSIGN,
               st_t = access_member (access_member (direct_target union_pq)
                        (members union_pq ! 0) 0\<lparr>lvalue := True\<rparr>) (members struct_xy ! 1) 0,
               st_expr = as_expr (imm_int 2)\<rparr>],
            [assign_member union_pq 1 3]]"
    by code_simp
  have o: "offset ?t = 0" "vtype ?t = union_pq" "Suc 6 = 7"
    by (simp_all add: direct_target_def var_direct_def start_def)
  from p have "?tr \<noteq> []"
    by auto
  then have "produced (last ?tr) = last (map produced ?tr)"
    by (simp add: last_map)
  with p have l: "produced (last ?tr) = [assign_member union_pq 1 3]"
    by simp
  from union_last_designated_wins [OF run] have "vals1 = [] @ produced (last ?tr)"
    unfolding o Let_def by simp
  with l have "vals1 = [assign_member union_pq 1 3]"
    by simp
  with run d p show ?thesis
    by (intro exI conjI)
qed

subsection \<open>The array walk: the length of an incomplete array\<close>

lemma try_parse_index_not_found:
  "try_parse_index X s i = Inr (False, i1, s0) \<Longrightarrow> i1 = i"
  by (auto simp: try_parse_index_def and_then_Inr_iff split: if_splits option.splits)

lemma rec_array_loop_trace:
  "rec_array_loop (engine_at X k) s vals t initial width count state i c = Inr (s1, vals1, c1)
   \<Longrightarrow>
   (let tr = array_trace k X s vals t initial width count state i c
    in tr \<noteq> []
     \<and> c1 = fold (\<lambda>(d, j) c. max c (size_t (Suc j))) tr c
     \<and> ((\<forall>it \<in> set tr. snd it < 2 ^ 64 - 1) \<longrightarrow> (\<forall>it \<in> set tr. \<not> fst it)
          \<longrightarrow> map snd tr = [i ..< i + length tr]))"
proof (induction k arbitrary: s vals t i c)
  case 0
  then show ?case by simp
next
  case (Suc n)
  let ?E = "engine_at X n"
  from Suc.prems have run: "array_loop X ?E s vals t initial width count state i c
      = Inr (s1, vals1, c1)"
    by simp
  from array_loop_cases [OF run] obtain found i1 s0 s3 vals3 b d where
    tp: "try_parse_index X s i = Inr (found, i1, s0)"
    and m: "rec_member ?E (if found \<and> peek s0 = ASSIGN then next_token s0 else s0) vals
              (t\<lparr>offset := size_t (initial + i1 * width)\<rparr>) = Inr (s3, vals3)"
    and hn: "has_next_array_element state s3 = (b, d)"
    and tl: "if b \<and> \<not> (\<not> d \<and> count \<noteq> 0 \<and> count \<le> max c (size_t (Suc i1)))
            then \<exists>s4. consume COMMA s3 = Inr s4
                    \<and> rec_array_loop ?E s4 vals3 (t\<lparr>offset := size_t (initial + i1 * width)\<rparr>)
                         initial width count state (size_t (Suc i1)) (max c (size_t (Suc i1)))
                       = Inr (s1, vals1, c1)
            else s1 = s3 \<and> vals1 = vals3 \<and> c1 = max c (size_t (Suc i1))"
    by blast
  let ?t1 = "t\<lparr>offset := size_t (initial + i1 * width)\<rparr>"
  let ?i2 = "size_t (Suc i1)"
  let ?c2 = "max c ?i2"
  define rest where "rest =
    (if b \<and> \<not> (\<not> d \<and> count \<noteq> 0 \<and> count \<le> ?c2)
     then (case consume COMMA s3 of
             Inl e \<Rightarrow> []
           | Inr s4 \<Rightarrow> array_trace n X s4 vals3 ?t1 initial width count state ?i2 ?c2)
     else [])"
  have tr: "array_trace (Suc n) X s vals t initial width count state i c = (found, i1) # rest"
    using tp m hn
    by (simp add: Let_def rest_def if_less_max split: bool.splits)
  have rest_ok: "c1 = fold (\<lambda>(d, j) c. max c (size_t (Suc j))) rest ?c2
      \<and> ((\<forall>it \<in> set rest. snd it < 2 ^ 64 - 1) \<longrightarrow> (\<forall>it \<in> set rest. \<not> fst it)
           \<longrightarrow> map snd rest = [?i2 ..< ?i2 + length rest])"
  proof (cases "b \<and> \<not> (\<not> d \<and> count \<noteq> 0 \<and> count \<le> ?c2)")
    case False
    then have "rest = []"
      unfolding rest_def by (rule if_not_P)
    moreover from False tl have "c1 = ?c2"
      by (simp only: if_False)
    ultimately show ?thesis
      by simp
  next
    case True
    with tl obtain s4 where cm: "consume COMMA s3 = Inr s4"
      and rec: "rec_array_loop ?E s4 vals3 ?t1 initial width count state ?i2 ?c2
                  = Inr (s1, vals1, c1)"
      by auto
    from True cm have "rest = array_trace n X s4 vals3 ?t1 initial width count state ?i2 ?c2"
      by (simp add: rest_def)
    with Suc.IH [OF rec] show ?thesis
      by (simp add: Let_def)
  qed
  have pos: "map snd ((found, i1) # rest) = [i ..< i + length ((found, i1) # rest)]"
    if bound: "\<forall>it \<in> set ((found, i1) # rest). snd it < 2 ^ 64 - 1"
      and plain: "\<forall>it \<in> set ((found, i1) # rest). \<not> fst it"
  proof -
    from plain have nf: "\<not> found" and pr: "\<forall>it \<in> set rest. \<not> fst it"
      by auto
    from bound have small: "i1 < 2 ^ 64 - 1" and br: "\<forall>it \<in> set rest. snd it < 2 ^ 64 - 1"
      by auto
    from small have "Suc i1 < 2 ^ 64"
      by simp
    then have i2: "?i2 = Suc i1"
      by (rule size_t_less)
    from rest_ok br pr have r: "map snd rest = [Suc i1 ..< Suc i1 + length rest]"
      unfolding i2 by blast
    from tp nf have "i1 = i"
      by (auto dest: try_parse_index_not_found)
    with r show ?thesis
      by (simp add: upt_conv_Cons del: upt_Suc)
  qed
  show ?case
    unfolding tr Let_def using rest_ok pos by simp
qed

lemma fold_size_t_bounded:
  "\<forall>it \<in> set tr. snd it < 2 ^ 64 - 1 \<Longrightarrow>
   fold (\<lambda>(d, j) c. max c (size_t (Suc j))) tr c = fold (\<lambda>(d, j) c. max c (Suc j)) tr c"
proof (induction tr arbitrary: c)
  case Nil
  then show ?case by simp
next
  case (Cons x rest)
  obtain d j where x: "x = (d, j)" by (cases x)
  with Cons.prems have "Suc j < 2 ^ 64" and r: "\<forall>it \<in> set rest. snd it < 2 ^ 64 - 1"
    by auto
  from this(1) have "size_t (Suc j) = Suc j"
    by (rule size_t_less)
  with Cons.IH [OF r] x show ?case
    by simp
qed

lemma fold_high_water_positional:
  "map snd tr = [i ..< i + length tr] \<Longrightarrow> tr \<noteq> [] \<Longrightarrow>
   fold (\<lambda>(d, j) c. max c (Suc j)) tr c = max c (i + length tr)"
proof (induction tr arbitrary: i c)
  case Nil
  then show ?case by simp
next
  case (Cons x rest)
  obtain d j where x: "x = (d, j)" by (cases x)
  from Cons.prems(1) x have j: "j = i" and r: "map snd rest = [Suc i ..< Suc i + length rest]"
    by (simp_all add: upt_conv_Cons del: upt_Suc)
  show ?case
  proof (cases "rest = []")
    case True
    with x j show ?thesis by simp
  next
    case False
    from Cons.IH [OF r False, of "max c (Suc i)"] x j show ?thesis
      by simp
  qed
qed

text \<open>
  C9, as amended. Let \<open>initialize_array\<close> answer for a target whose type has size
  zero and is the type of the owning symbol, and let \<open>s0\<close> be the state after the
  expression that the function reads first, if it reads one. When the string-literal
  shortcut applies, the symbol's array type ends with the length of the literal's
  array type. Otherwise it ends with the mark the walk has kept in \<open>size_t\<close>; when
  every element index written is below \<open>2 ^ 64 - 1\<close>, that is the high-water mark of
  the indices written (one past the greatest), and the number N of elements when all
  N are positional. The first half rests on the part of \<open>eval_assign\<close> that completes
  the type, modelled from the specification; \<open>initialize_array\<close> itself then finds
  the size no longer zero and leaves the type alone.
\<close>

theorem incomplete_array_length:
  assumes run: "initialize_array X (engine_at X n) s vals t state = Inr (s1, vals1)"
    and inc: "size_of (vtype t) = 0"
    and own: "vtype t = sym_type s"
    and rd: "(if \<not> has_init_value (blk s) then
                (if peek s = DOT \<or> peek s = LBRACE \<or> peek s = LBRACKET then Inr s
                 else read_initializer_element X s (symbol t))
              else Inr s) = Inr s0"
  shows "if string_shortcut (type_next (vtype t)) s0
         then type_array_len (sym_type s1) = type_array_len (etype (expr (blk s0)))
         else (let tr = array_trace (Suc n) X s0 vals (t\<lparr>vtype := type_next (vtype t)\<rparr>)
                          (offset t) (size_of (type_next (vtype t)))
                          (type_array_len (vtype t)) state 0 0
               in tr \<noteq> []
                  \<and> type_array_len (sym_type s1) = high_water_size_t tr
                  \<and> ((\<forall>it \<in> set tr. snd it < 2 ^ 64 - 1) \<longrightarrow>
                       type_array_len (sym_type s1) = high_water tr
                       \<and> ((\<forall>it \<in> set tr. \<not> fst it) \<longrightarrow>
                            type_array_len (sym_type s1) = length tr)))"
proof -
  let ?E = "engine_at X n"
  let ?elem = "type_next (vtype t)"
  from run have arr: "is_array (vtype t)"
    by (auto simp: initialize_array_def split: if_splits)
  then obtain e k where ty: "vtype t = T_ARRAY e k"
    by (cases "vtype t") auto
  from initialize_array_cases [OF run] rd obtain s3 c where
    mid: "if string_shortcut ?elem s0
          then (case eval_assign_string s0 vals t (expr (blk s0)) of
                  (s2, vals2, target2) \<Rightarrow>
                     s3 = s2\<lparr>blk := (blk s2)\<lparr>has_init_value := False\<rparr>\<rparr>
                     \<and> vals1 = vals2 \<and> c = 0)
          else array_loop X ?E s0 vals (t\<lparr>vtype := ?elem\<rparr>) (offset t)
                 (size_of ?elem) (type_array_len (vtype t)) state 0 0
               = Inr (s3, vals1, c)"
    and fin: "if size_of (type_handle s s3 (vtype t)) = 0
            then is_array (sym_type s3) \<and> size_of (sym_type s3) = 0
               \<and> s1 = s3\<lparr>sym_type := set_array_length (sym_type s3) c\<rparr>
            else s1 = s3"
    unfolding string_shortcut_def by auto
  have sty: "sym_type s = T_ARRAY e k"
    using own ty by simp
  have st0: "sym_type s0 = T_ARRAY e k"
    using first_read_keeps [OF rd] sty by simp
  have th: "type_handle s s3 (vtype t) = sym_type s3"
    using own by (simp add: type_handle_def)
  show ?thesis
  proof (cases "string_shortcut ?elem s0")
    case True
    let ?len = "type_array_len (etype (expr (blk s0)))"
    from True have ch: "e = T_CHAR"
      using ty by (simp add: string_shortcut_def is_char_def)
    from mid True have s3: "sym_type s3 = T_ARRAY e ?len" and c: "c = 0"
      using inc st0 ty by (auto simp: eval_assign_string_def)
    have "type_array_len (sym_type s1) = ?len"
      using fin th s3 c ch by (auto split: if_splits)
    with True show ?thesis by simp
  next
    case False
    with mid have lp: "rec_array_loop (engine_at X (Suc n)) s0 vals (t\<lparr>vtype := ?elem\<rparr>)
        (offset t) (size_of ?elem) (type_array_len (vtype t)) state 0 0 = Inr (s3, vals1, c)"
      by simp
    define tr where "tr = array_trace (Suc n) X s0 vals (t\<lparr>vtype := ?elem\<rparr>)
        (offset t) (size_of ?elem) (type_array_len (vtype t)) state 0 0"
    from rec_array_loop_trace [OF lp] have
      ne: "tr \<noteq> []" and hw: "c = high_water_size_t tr"
      and pos: "(\<forall>it \<in> set tr. snd it < 2 ^ 64 - 1) \<longrightarrow> (\<forall>it \<in> set tr. \<not> fst it)
                \<longrightarrow> map snd tr = [0 ..< 0 + length tr]"
      unfolding tr_def [symmetric] Let_def high_water_size_t_def by auto
    from mid False have "array_loop X ?E s0 vals (t\<lparr>vtype := ?elem\<rparr>) (offset t)
                 (size_of ?elem) (type_array_len (vtype t)) state 0 0 = Inr (s3, vals1, c)"
      by simp
    from array_loop_keeps [OF engine_at_ok this] have "sym_type s3 = sym_type s0"
      by (simp add: keeps_def)
    with st0 ty inc have s3: "sym_type s3 = T_ARRAY e k" "size_of (sym_type s3) = 0"
      by simp_all
    with fin th have len: "type_array_len (sym_type s1) = c"
      by simp
    have plain: "c = high_water tr" if "\<forall>it \<in> set tr. snd it < 2 ^ 64 - 1"
      using fold_size_t_bounded [OF that, of 0] hw
      by (simp add: high_water_def high_water_size_t_def)
    have "c = length tr" if "\<forall>it \<in> set tr. snd it < 2 ^ 64 - 1" "\<forall>it \<in> set tr. \<not> fst it"
      using fold_high_water_positional [of tr 0 0] pos that ne plain
      by (simp add: high_water_def)
    with len hw plain ne False show ?thesis
      unfolding tr_def [symmetric] Let_def by simp
  qed
qed

theorem incomplete_array_length_witness:
  "(\<exists>s1 vals1.
      initialize_array X0 (engine_at X0 6) (start (T_ARRAY T_INT 0) tokens_123_tail) []
        (direct_target (T_ARRAY T_INT 0)) CURRENT = Inr (s1, vals1)
      \<and> type_array_len (sym_type s1) = 3)
   \<and> (\<exists>s1 vals1.
      initialize_array literal_parser (engine_at literal_parser 6)
        (start (T_ARRAY T_CHAR 0) [OTHER 0]) [] (direct_target (T_ARRAY T_CHAR 0)) MEMBER
        = Inr (s1, vals1)
      \<and> type_array_len (sym_type s1) = 3)"
proof -
  let ?s = "start (T_ARRAY T_INT 0) tokens_123_tail" and ?t = "direct_target (T_ARRAY T_INT 0)"
  let ?ra = "(start (T_ARRAY T_INT 0) (drop 1 tokens_123_tail))
               \<lparr>blk := empty_block\<lparr>expr := as_expr (imm_int 1), has_init_value := True\<rparr>\<rparr>"
  have "case initialize_array X0 (engine_at X0 6) ?s [] ?t CURRENT of
          Inr r \<Rightarrow> True | Inl e \<Rightarrow> False"
    by code_simp
  then obtain s1 vals1 where
    run: "initialize_array X0 (engine_at X0 6) ?s [] ?t CURRENT = Inr (s1, vals1)"
    by (cases "initialize_array X0 (engine_at X0 6) ?s [] ?t CURRENT") auto
  have inc: "size_of (vtype ?t) = 0" and own: "vtype ?t = sym_type ?s"
    by (simp_all add: direct_target_def var_direct_def start_def)
  have rd: "(if \<not> has_init_value (blk ?s) then
                (if peek ?s = DOT \<or> peek ?s = LBRACE \<or> peek ?s = LBRACKET then Inr ?s
                 else read_initializer_element X0 ?s (symbol ?t))
              else Inr ?s) = Inr ?ra"
    by (simp add: tokens_123_tail_def read_initializer_element_def
          parse_assignment_expression_def is_void_def token_defs example_defs)
  have ns: "\<not> string_shortcut (type_next (vtype ?t)) ?ra"
    by (simp add: string_shortcut_def is_char_def direct_target_def var_direct_def start_def)
  have tr: "array_trace (Suc 6) X0 ?ra [] (?t\<lparr>vtype := type_next (vtype ?t)\<rparr>)
              (offset ?t) (size_of (type_next (vtype ?t))) (type_array_len (vtype ?t))
              CURRENT 0 0 = [(False, 0), (False, 1), (False, 2)]"
    by code_simp
  from incomplete_array_length [OF run inc own rd] ns have "type_array_len (sym_type s1) = 3"
    unfolding tr Let_def by simp
  with run have one: "\<exists>s1 vals1.
      initialize_array X0 (engine_at X0 6) ?s [] ?t CURRENT = Inr (s1, vals1)
      \<and> type_array_len (sym_type s1) = 3"
    by blast
  let ?u = "start (T_ARRAY T_CHAR 0) [OTHER 0]" and ?v = "direct_target (T_ARRAY T_CHAR 0)"
  let ?rb = "(start (T_ARRAY T_CHAR 0) [])
               \<lparr>blk := empty_block\<lparr>expr := literal_hi, has_init_value := True\<rparr>\<rparr>"
  have "case initialize_array literal_parser (engine_at literal_parser 6) ?u [] ?v MEMBER of
          Inr r \<Rightarrow> True | Inl e \<Rightarrow> False"
    by code_simp
  then obtain s2 vals2 where
    run2: "initialize_array literal_parser (engine_at literal_parser 6) ?u [] ?v MEMBER
             = Inr (s2, vals2)"
    by (cases "initialize_array literal_parser (engine_at literal_parser 6) ?u [] ?v MEMBER")
       auto
  have inc2: "size_of (vtype ?v) = 0" and own2: "vtype ?v = sym_type ?u"
    by (simp_all add: direct_target_def var_direct_def start_def)
  have rd2: "(if \<not> has_init_value (blk ?u) then
                (if peek ?u = DOT \<or> peek ?u = LBRACE \<or> peek ?u = LBRACKET then Inr ?u
                 else read_initializer_element literal_parser ?u (symbol ?v))
              else Inr ?u) = Inr ?rb"
    by (simp add: read_initializer_element_def parse_assignment_expression_def is_void_def
          literal_parser_def literal_hi_def token_defs example_defs)
  have ss: "string_shortcut (type_next (vtype ?v)) ?rb"
    by (simp add: string_shortcut_def is_char_def is_identity_def literal_hi_def as_expr_def
          direct_target_def var_direct_def start_def empty_block_def)
  have "type_array_len (etype (expr (blk ?rb))) = 3"
    by (simp add: literal_hi_def as_expr_def start_def empty_block_def)
  with incomplete_array_length [OF run2 inc2 own2 rd2] ss
  have "type_array_len (sym_type s2) = 3"
    by simp
  with run2 have "\<exists>s1 vals1.
      initialize_array literal_parser (engine_at literal_parser 6) ?u [] ?v MEMBER
        = Inr (s1, vals1)
      \<and> type_array_len (sym_type s1) = 3"
    by blast
  with one show ?thesis
    by (rule conjI)
qed

text \<open>
  C9 as stated fails: for \<open>int a[] = { [-1] = 1 }\<close> the designator is stored into a
  \<open>size_t\<close> and names the element \<open>2 ^ 64 - 1\<close>, which is written (at the wrapped
  offset \<open>2 ^ 64 - 4\<close>); the index after it wraps to 0, and the length of the symbol's
  type is set to 0, not to the high-water mark of the indices written.
\<close>

theorem incomplete_array_wrap_counterexample:
  "initialize_array negative_index_parser (engine_at negative_index_parser (Suc 0))
     (start (T_ARRAY T_INT 0) tokens_minus_one) [] (direct_target (T_ARRAY T_INT 0)) CURRENT
   = Inr ((start (T_ARRAY T_INT 0) [RBRACE])\<lparr>blk := empty_block\<lparr>expr := as_expr (imm_int 1)\<rparr>\<rparr>,
          [\<lparr>st = IR_ASSIGN,
            st_t = (direct_target (T_ARRAY T_INT 0))\<lparr>vtype := T_INT, offset := 2 ^ 64 - 4\<rparr>,
            st_expr = as_expr (imm_int 1)\<rparr>])
   \<and> array_trace (Suc (Suc 0)) negative_index_parser
        (start (T_ARRAY T_INT 0) tokens_minus_one) []
        ((direct_target (T_ARRAY T_INT 0))\<lparr>vtype := T_INT\<rparr>) 0 4 0 CURRENT 0 0
       = [(True, 2 ^ 64 - 1)]
   \<and> type_array_len (sym_type (start (T_ARRAY T_INT 0) [RBRACE])) = 0
   \<and> high_water [(True, 2 ^ 64 - 1)] = 2 ^ 64"
  by (simp add: engine_defs token_defs example_defs negative_index_parser_def
        tokens_minus_one_def high_water_def is_integer_def)

end
